theory Spec2Isabelle
  imports Main
begin

section \<open>Record shapes of src/index.ts\<close>

text \<open>
  The interfaces \<open>Geo\<close>, \<open>Address\<close>, \<open>Company\<close>, \<open>User\<close> and \<open>Post\<close> of
  src/index.ts. A TypeScript \<open>number\<close> that is a record id is modelled as an integer.
  The fields \<open>id\<close> and \<open>name\<close> carry the name of their interface, since \<open>id\<close> is a
  constant of HOL and \<open>name\<close> occurs in two interfaces.
\<close>

type_synonym number = int

record Geo =
  lat :: string
  lng :: string

record Address =
  street :: string
  suite :: string
  city :: string
  zipcode :: string
  geo :: Geo

record Company =
  company_name :: string
  catchPhrase :: string
  bs :: string

record User =
  user_id :: number
  user_name :: string
  username :: string
  email :: string
  address :: Address
  phone :: string
  website :: string
  company :: Company

record Post =
  post_id :: number
  userId :: number
  title :: string
  body :: string

text \<open>
  The driver passes the record itself as the \<open>attributes\<close> of its entity; the store takes
  any value there.
\<close>

datatype payload = UserRecord User | PostRecord Post

section \<open>Template literals over numbers\<close>

text \<open>
  \<open>`user:${user.id}`\<close> converts the number to a string. A JavaScript number holds every
  integer of magnitude at most \<open>2^53 - 1\<close> exactly (\<open>Number.isSafeInteger\<close>), a JSON
  body delivers such an id unrounded, and the template literal prints its decimal
  digits, with a minus sign for a negative one. \<open>number_to_string\<close> is that rendering.
  Beyond the safe integers JavaScript rounds the id and prints other digits or an
  exponent, which \<open>number_to_string\<close> does not follow: what is stated of the rendering
  itself is stated of safe integers.
\<close>

definition safe_integer :: "number \<Rightarrow> bool" where
  "safe_integer n = (- (2 ^ 53 - 1) \<le> n \<and> n \<le> 2 ^ 53 - 1)"

definition digit_char :: "nat \<Rightarrow> char" where
  "digit_char d = ''0123456789'' ! d"

fun nat_to_string :: "nat \<Rightarrow> string" where
  "nat_to_string n =
     (if n < 10 then [digit_char n] else nat_to_string (n div 10) @ [digit_char (n mod 10)])"

declare nat_to_string.simps [simp del]

definition number_to_string :: "number \<Rightarrow> string" where
  "number_to_string i =
     (if i < 0 then ''-'' @ nat_to_string (nat (- i)) else nat_to_string (nat i))"

definition getUserId :: "User \<Rightarrow> string" where
  "getUserId user = ''user:'' @ number_to_string (user_id user)"

definition getPostId :: "Post \<Rightarrow> string" where
  "getPostId post = ''post:'' @ number_to_string (post_id post)"

section \<open>Errors\<close>

text \<open>
  What the program can throw. \<open>FetchError\<close> is node-fetch's error class, with its
  \<open>code\<close> (absent on some errors, printed as \<open>undefined\<close>) and its \<open>message\<close>;
  \<open>OtherTransportError\<close> is any other value thrown by \<open>fetch\<close> or \<open>response.json()\<close>;
  \<open>TypeError\<close> is raised by JavaScript itself on \<open>undefined.forEach\<close> or on calling a
  \<open>forEach\<close> that is not a function. The last two are the store's errors as the
  specification names them.
\<close>

datatype error =
    FetchError "string option" string
  | OtherTransportError string
  | TypeError
  | DuplicateEntityError
  | InvalidReferenceError

section \<open>The graph store\<close>

text \<open>
  Modelled from the spec: the class \<open>Graph\<close> (module \<open>./graph\<close>) is imported by
  src/index.ts and is not among the sources. The definitions of this section follow
  sections 3, 4.1, 7 and 9 of the specification.

  An entity has an \<open>id\<close>, a \<open>type\<close> and \<open>attributes\<close>. An entity handle is the
  entity value; the store owns the entities in a mapping keyed by id, and a relationship
  keeps the ids of its two endpoints (section 9: relationships store the id, so that
  validity can be checked against the current store contents). The fields are named
  \<open>entity_id\<close>, \<open>entity_type\<close>, \<open>rel_from\<close>, \<open>rel_to\<close> because \<open>id\<close>, \<open>type\<close>,
  \<open>from\<close> and \<open>to\<close> are taken in Isabelle.
\<close>

record 'a Entity =
  entity_id :: string
  entity_type :: string
  attributes :: 'a

record Relationship =
  rel_from :: string
  rel_to :: string
  label :: string

text \<open>
  Modelled from the spec: the duplicate policy is a named configuration of the store
  (section 9), \<open>Overwrite\<close> being the default and \<open>Reject\<close> the optional strict mode
  of section 7.
\<close>

datatype policy = Overwrite | Reject

text \<open>
  Modelled from the spec: the store owns an insertion-ordered mapping from id to entity
  (the list \<open>entities\<close>, in creation order) and an ordered sequence of relationships.
\<close>

record 'a Graph =
  policy :: policy
  entities :: "'a Entity list"
  relationships :: "Relationship list"

text \<open>Modelled from the spec: \<open>new Graph()\<close>, the store created empty, default policy.\<close>

definition newGraph :: "'a Graph" where
  "newGraph = \<lparr>policy = Overwrite, entities = [], relationships = []\<rparr>"

text \<open>
  Modelled from the spec: \<open>findEntityById\<close> is a pure lookup; "not found" is the value
  \<open>None\<close>.
\<close>

definition findEntityById :: "'a Graph \<Rightarrow> string \<Rightarrow> 'a Entity option" where
  "findEntityById g i = find (\<lambda>e. entity_id e = i) (entities g)"

text \<open>
  Modelled from the spec: \<open>createEntity\<close>. With no entity under \<open>id\<close> the new entity is
  appended to the entity order. With one, the default policy overwrites its type and
  attributes in place and returns it; the strict mode reports \<open>DuplicateEntityError\<close>.
  The result is the returned handle and the store after the call. The specification
  states the non-emptiness of \<open>id\<close> and \<open>type\<close> as conditions on the caller and says
  nothing of a call that breaks them; the model does not inspect them.
\<close>

definition createEntity ::
  "'a Graph \<Rightarrow> string \<Rightarrow> string \<Rightarrow> 'a \<Rightarrow> error + ('a Entity \<times> 'a Graph)" where
  "createEntity g i t a =
     (case findEntityById g i of
        None \<Rightarrow>
          (let e = \<lparr>entity_id = i, entity_type = t, attributes = a\<rparr>
           in Inr (e, g\<lparr>entities := entities g @ [e]\<rparr>))
      | Some old \<Rightarrow>
          (case policy g of
             Reject \<Rightarrow> Inl DuplicateEntityError
           | Overwrite \<Rightarrow>
               (let e = old\<lparr>entity_type := t, attributes := a\<rparr>
                in Inr (e, g\<lparr>entities :=
                     map (\<lambda>x. if entity_id x = i then e else x) (entities g)\<rparr>))))"

text \<open>
  Modelled from the spec: a handle is an entity previously returned by this store. In
  the source a handle is a reference to the stored object, which an overwrite updates in
  place, so a handle always shows the entity as the store now holds it. As a value, the
  handle of this store for an id is therefore the entity the store holds under that id,
  the one \<open>findEntityById\<close> returns and the last one \<open>createEntity\<close> returned for it. A
  value that differs from it in type or attributes, or whose id the store does not hold,
  is not a handle of this store. Two objects with the same id, type and attributes are
  one value here.
\<close>

definition owns :: "'a Graph \<Rightarrow> 'a Entity \<Rightarrow> bool" where
  "owns g e = (findEntityById g (entity_id e) = Some e)"

text \<open>
  Modelled from the spec: \<open>createRelationship\<close> appends a relationship between two
  handles of this store; the defensive check of section 4.1 reports a dangling reference
  as \<open>InvalidReferenceError\<close> (section 7) and then nothing is appended.
\<close>

definition createRelationship ::
  "'a Graph \<Rightarrow> 'a Entity \<Rightarrow> 'a Entity \<Rightarrow> string \<Rightarrow> error + (Relationship \<times> 'a Graph)" where
  "createRelationship g f t l =
     (if owns g f \<and> owns g t
      then (let r = \<lparr>rel_from = entity_id f, rel_to = entity_id t, label = l\<rparr>
            in Inr (r, g\<lparr>relationships := relationships g @ [r]\<rparr>))
      else Inl InvalidReferenceError)"

text \<open>
  Modelled from the spec: a history of mutating calls made on a store by some caller.
  A call that throws leaves the store as it was, and the caller goes on.
\<close>

datatype 'a call =
    CreateEntity string string 'a
  | CreateRelationship "'a Entity" "'a Entity" string

fun perform :: "'a Graph \<Rightarrow> 'a call \<Rightarrow> 'a Graph" where
  "perform g (CreateEntity i t a) =
     (case createEntity g i t a of Inl _ \<Rightarrow> g | Inr (_, g') \<Rightarrow> g')"
| "perform g (CreateRelationship f t l) =
     (case createRelationship g f t l of Inl _ \<Rightarrow> g | Inr (_, g') \<Rightarrow> g')"

definition performAll :: "'a Graph \<Rightarrow> 'a call list \<Rightarrow> 'a Graph" where
  "performAll g cs = foldl perform g cs"

text \<open>
  The last \<open>createEntity\<close> call of a history for the id \<open>i\<close>, as the entity it asks for;
  \<open>None\<close> when the history has none.
\<close>

fun latest :: "'a call list \<Rightarrow> string \<Rightarrow> 'a Entity option" where
  "latest [] i = None"
| "latest (CreateEntity j t a # cs) i =
     (case latest cs i of
        Some e \<Rightarrow> Some e
      | None \<Rightarrow>
          (if j = i then Some \<lparr>entity_id = i, entity_type = t, attributes = a\<rparr> else None))"
| "latest (CreateRelationship f t l # cs) i = latest cs i"

text \<open>
  Modelled from the spec: a sequence of \<open>createEntity\<close> calls, given as the triples of
  their arguments; the first call that throws ends the sequence with its error.
\<close>

fun createEntities :: "'a Graph \<Rightarrow> (string \<times> string \<times> 'a) list \<Rightarrow> error + 'a Graph" where
  "createEntities g [] = Inr g"
| "createEntities g ((i, t, a) # xs) =
     (case createEntity g i t a of Inl e \<Rightarrow> Inl e | Inr (_, g') \<Rightarrow> createEntities g' xs)"

text \<open>The ids a history asks \<open>createEntity\<close> for, in call order.\<close>

fun createdIds :: "'a call list \<Rightarrow> string list" where
  "createdIds [] = []"
| "createdIds (CreateEntity i t a # cs) = i # createdIds cs"
| "createdIds (CreateRelationship f t l # cs) = createdIds cs"


text \<open>Referential integrity: both endpoints of every relationship can be looked up.\<close>

definition ref_integrity :: "'a Graph \<Rightarrow> bool" where
  "ref_integrity g =
     list_all (\<lambda>r. findEntityById g (rel_from r) \<noteq> None \<and> findEntityById g (rel_to r) \<noteq> None)
       (relationships g)"

section \<open>The transport: \<open>ThirdPartyApiClient\<close>\<close>

text \<open>
  What the \<open>try\<close> block of \<open>get\<close> yields for a URL: the parsed body, or the value thrown
  by \<open>fetch\<close> or by \<open>response.json()\<close>. A parsed body is an array of records or any
  other JSON value, which has no \<open>forEach\<close> method. The annotation
  \<open>const response: Post[] = await this.get("/posts")\<close> is not checked at run time; the
  model reads the network at the annotated type, so a network gives an outcome per URL
  for each of the two record types.
\<close>

datatype 'r json = Array "'r list" | NonArray

datatype 'r fetch_outcome = Data "'r json" | Throws error

record network =
  fetch_users :: "string \<Rightarrow> User fetch_outcome"
  fetch_posts :: "string \<Rightarrow> Post fetch_outcome"

text \<open>
  The effects of a run, in order: calls of \<open>fetch\<close>, lines printed by \<open>console.log\<close>,
  calls of the store's methods, and promises rejected with nobody awaiting them.
\<close>

datatype event =
    FetchEv string
  | LogEv string
  | CreateEntityEv string string
  | FindEntityByIdEv string
  | CreateRelationshipEv string string string
  | UnhandledRejectionEv error

record state =
  graph :: "payload Graph"
  trace :: "event list"

definition emit :: "event \<Rightarrow> state \<Rightarrow> state" where
  "emit ev s = s\<lparr>trace := trace s @ [ev]\<rparr>"

definition withBaseUrl :: "string \<Rightarrow> string \<Rightarrow> string" where
  "withBaseUrl baseUrl path = baseUrl @ path"

definition log_line :: "string \<Rightarrow> string \<Rightarrow> string option \<Rightarrow> string \<Rightarrow> string" where
  "log_line baseUrl path code message =
     ''Endpoint: '' @ baseUrl @ path @ ''|Code: ''
       @ (case code of None \<Rightarrow> ''undefined'' | Some c \<Rightarrow> c) @ ''|Message: '' @ message"

text \<open>
  \<open>get\<close>: the body on success. A thrown value is caught; it is logged when it is a
  \<open>FetchError\<close> and dropped otherwise, and in both cases the method returns
  \<open>undefined\<close>, here \<open>None\<close>.
\<close>

definition get ::
  "(string \<Rightarrow> 'r fetch_outcome) \<Rightarrow> string \<Rightarrow> string \<Rightarrow> state \<Rightarrow> 'r json option \<times> state" where
  "get fetch baseUrl path s =
     (let s1 = emit (FetchEv (withBaseUrl baseUrl path)) s
      in case fetch (withBaseUrl baseUrl path) of
           Data d \<Rightarrow> (Some d, s1)
         | Throws (FetchError code message) \<Rightarrow>
             (None, emit (LogEv (log_line baseUrl path code message)) s1)
         | Throws _ \<Rightarrow> (None, s1))"

text \<open>
  \<open>Array.prototype.forEach\<close>: the callback is called on each element in order; a
  callback that throws ends the loop with its error.
\<close>

fun forEach ::
  "('r \<Rightarrow> state \<Rightarrow> state \<times> error option) \<Rightarrow> 'r list \<Rightarrow> state \<Rightarrow> state \<times> error option" where
  "forEach callback [] s = (s, None)"
| "forEach callback (x # xs) s =
     (case callback x s of
        (s', None) \<Rightarrow> forEach callback xs s'
      | (s', Some e) \<Rightarrow> (s', Some e))"

text \<open>
  \<open>iterateUsers\<close> and \<open>iteratePosts\<close>: \<open>response.forEach\<close> throws a \<open>TypeError\<close> when
  \<open>get\<close> returned \<open>undefined\<close> and when the body is not an array.
\<close>

definition iterateUsers ::
  "(string \<Rightarrow> User fetch_outcome) \<Rightarrow> string \<Rightarrow> (User \<Rightarrow> state \<Rightarrow> state \<times> error option)
     \<Rightarrow> state \<Rightarrow> state \<times> error option" where
  "iterateUsers fetch baseUrl callback s =
     (case get fetch baseUrl ''/users'' s of
        (None, s') \<Rightarrow> (s', Some TypeError)
      | (Some NonArray, s') \<Rightarrow> (s', Some TypeError)
      | (Some (Array response), s') \<Rightarrow> forEach callback response s')"

definition iteratePosts ::
  "(string \<Rightarrow> Post fetch_outcome) \<Rightarrow> string \<Rightarrow> (Post \<Rightarrow> state \<Rightarrow> state \<times> error option)
     \<Rightarrow> state \<Rightarrow> state \<times> error option" where
  "iteratePosts fetch baseUrl callback s =
     (case get fetch baseUrl ''/posts'' s of
        (None, s') \<Rightarrow> (s', Some TypeError)
      | (Some NonArray, s') \<Rightarrow> (s', Some TypeError)
      | (Some (Array response), s') \<Rightarrow> forEach callback response s')"

section \<open>The ingestion driver\<close>

text \<open>The store's methods as the driver calls them on its \<open>graph\<close>, each call traced.\<close>

definition graph_createEntity ::
  "string \<Rightarrow> string \<Rightarrow> payload \<Rightarrow> state \<Rightarrow> (error + payload Entity) \<times> state" where
  "graph_createEntity i t a s =
     (let s1 = emit (CreateEntityEv i t) s
      in case createEntity (graph s) i t a of
           Inl e \<Rightarrow> (Inl e, s1)
         | Inr (entity, g') \<Rightarrow> (Inr entity, s1\<lparr>graph := g'\<rparr>))"

definition graph_findEntityById :: "string \<Rightarrow> state \<Rightarrow> payload Entity option \<times> state" where
  "graph_findEntityById i s = (findEntityById (graph s) i, emit (FindEntityByIdEv i) s)"

definition graph_createRelationship ::
  "payload Entity \<Rightarrow> payload Entity \<Rightarrow> string \<Rightarrow> state \<Rightarrow> (error + Relationship) \<times> state" where
  "graph_createRelationship f t l s =
     (let s1 = emit (CreateRelationshipEv (entity_id f) (entity_id t) l) s
      in case createRelationship (graph s) f t l of
           Inl e \<Rightarrow> (Inl e, s1)
         | Inr (r, g') \<Rightarrow> (Inr r, s1\<lparr>graph := g'\<rparr>))"

text \<open>
  An \<open>async\<close> function called without \<open>await\<close>: its body runs at once up to its first
  \<open>await\<close> (the two callbacks of the driver have none, so the whole body runs), and it
  never throws to its caller: an error of the body rejects the returned promise, which
  \<open>forEach\<close> discards.
\<close>

definition async ::
  "('r \<Rightarrow> state \<Rightarrow> state \<times> error option) \<Rightarrow> 'r \<Rightarrow> state \<Rightarrow> state \<times> error option" where
  "async fn x s =
     (case fn x s of
        (s', None) \<Rightarrow> (s', None)
      | (s', Some e) \<Rightarrow> (emit (UnhandledRejectionEv e) s', None))"

text \<open>The body of the callback given to \<open>iterateUsers\<close> (src/index.ts, line 121).\<close>

definition userCallback :: "User \<Rightarrow> state \<Rightarrow> state \<times> error option" where
  "userCallback user s =
     (case graph_createEntity (getUserId user) ''User'' (UserRecord user) s of
        (Inl e, s1) \<Rightarrow> (s1, Some e)
      | (Inr _, s1) \<Rightarrow> (s1, None))"

text \<open>
  The body of the callback given to \<open>iteratePosts\<close> (lines 127 to 131). The entity
  returned by \<open>createEntity\<close> is an object, hence truthy: the test
  \<open>userEntity && postEntity\<close> is decided by the lookup alone.
\<close>

definition postCallback :: "Post \<Rightarrow> state \<Rightarrow> state \<times> error option" where
  "postCallback post s =
     (case graph_createEntity (getPostId post) ''Post'' (PostRecord post) s of
        (Inl e, s1) \<Rightarrow> (s1, Some e)
      | (Inr postEntity, s1) \<Rightarrow>
          (case graph_findEntityById (''user:'' @ number_to_string (userId post)) s1 of
             (None, s2) \<Rightarrow> (s2, None)
           | (Some userEntity, s2) \<Rightarrow>
               (case graph_createRelationship userEntity postEntity ''HAS'' s2 of
                  (Inl e, s3) \<Rightarrow> (s3, Some e)
                | (Inr _, s3) \<Rightarrow> (s3, None))))"

definition baseUrl :: string where
  "baseUrl = ''https://jsonplaceholder.typicode.com''"

definition usersUrl :: string where
  "usersUrl = withBaseUrl baseUrl ''/users''"

definition postsUrl :: string where
  "postsUrl = withBaseUrl baseUrl ''/posts''"

text \<open>
  The driver (lines 108 to 132), up to the call of the test harness, which is not among
  the sources. Each \<open>await\<close> throws again what its promise was rejected with, and then
  nothing after it runs. The result is the final state and the error the driver's own
  promise is rejected with, if any.
\<close>

definition main :: "network \<Rightarrow> state \<times> error option" where
  "main net =
     (case iterateUsers (fetch_users net) baseUrl (async userCallback)
             \<lparr>graph = newGraph, trace = []\<rparr> of
        (s1, Some e) \<Rightarrow> (s1, Some e)
      | (s1, None) \<Rightarrow> iteratePosts (fetch_posts net) baseUrl (async postCallback) s1)"

text \<open>
  The records a source hands to the callback, read off the outcome of its fetch: the
  elements of the array, and \<open>None\<close> when the fetch yields no array at all.
\<close>

definition delivered :: "'r fetch_outcome \<Rightarrow> 'r list option" where
  "delivered outcome = (case outcome of Data (Array xs) \<Rightarrow> Some xs | _ \<Rightarrow> None)"

text \<open>
  Events by kind: the creation of a user entity; an effect of the post ingestion (the
  fetch of the posts, the creation of a post entity, the lookup and the relationship of
  the post callback); a rejected promise.
\<close>

fun user_creation :: "event \<Rightarrow> bool" where
  "user_creation (CreateEntityEv i t) = (t = ''User'')"
| "user_creation _ = False"

fun post_event :: "event \<Rightarrow> bool" where
  "post_event (FetchEv url) = (url = postsUrl)"
| "post_event (CreateEntityEv i t) = (t = ''Post'')"
| "post_event (FindEntityByIdEv i) = True"
| "post_event (CreateRelationshipEv f t l) = True"
| "post_event _ = False"

fun rejection :: "event \<Rightarrow> bool" where
  "rejection (UnhandledRejectionEv e) = True"
| "rejection _ = False"

text \<open>The \<open>createEntity\<close> call each callback makes for its record.\<close>

definition userCall :: "User \<Rightarrow> payload call" where
  "userCall user = CreateEntity (getUserId user) ''User'' (UserRecord user)"

definition postCall :: "Post \<Rightarrow> payload call" where
  "postCall post = CreateEntity (getPostId post) ''Post'' (PostRecord post)"

text \<open>
  The records the callbacks of a run are invoked on: the users when their fetch yields
  an array; the posts when, moreover, the driver gets as far as fetching them and that
  fetch yields an array. \<open>creation\<close> holds of the events that create an entity.
\<close>

definition deliveredUsers :: "network \<Rightarrow> User list" where
  "deliveredUsers net =
     (case delivered (fetch_users net usersUrl) of None \<Rightarrow> [] | Some us \<Rightarrow> us)"

definition deliveredPosts :: "network \<Rightarrow> Post list" where
  "deliveredPosts net =
     (case delivered (fetch_users net usersUrl) of
        None \<Rightarrow> []
      | Some _ \<Rightarrow>
          (case delivered (fetch_posts net postsUrl) of None \<Rightarrow> [] | Some ps \<Rightarrow> ps))"

fun creation :: "event \<Rightarrow> bool" where
  "creation (CreateEntityEv i t) = True"
| "creation _ = False"

text \<open>
  The fixture of the orphan-handling property (section 8 of the specification): one
  person with id 1, a post of that person and a post of an unknown person 99, served
  whatever the URL; and a network whose fetch of the users fails with a \<open>FetchError\<close>.
\<close>

definition user1 :: User where
  "user1 = \<lparr>user_id = 1, user_name = ''Leanne Graham'', username = ''Bret'',
     email = ''Sincere@april.biz'',
     address = \<lparr>street = ''Kulas Light'', suite = ''Apt. 556'', city = ''Gwenborough'',
       zipcode = ''92998-3874'', geo = \<lparr>lat = ''-37.3159'', lng = ''81.1496''\<rparr>\<rparr>,
     phone = ''1-770-736-8031'', website = ''hildegard.org'',
     company = \<lparr>company_name = ''Romaguera-Crona'', catchPhrase = ''Multi-layered'',
       bs = ''harness''\<rparr>\<rparr>"

definition post10 :: Post where
  "post10 = \<lparr>post_id = 10, userId = 1, title = ''optio'', body = ''quo et''\<rparr>"

definition post11 :: Post where
  "post11 = \<lparr>post_id = 11, userId = 99, title = ''et ea'', body = ''delectus''\<rparr>"

definition orphan_network :: network where
  "orphan_network =
     \<lparr>fetch_users = (\<lambda>url. Data (Array [user1])),
      fetch_posts = (\<lambda>url. Data (Array [post10, post11]))\<rparr>"

definition refused_network :: network where
  "refused_network =
     \<lparr>fetch_users = (\<lambda>url. Throws (FetchError (Some ''ECONNREFUSED'') ''request failed'')),
      fetch_posts = (\<lambda>url. Data (Array [post10, post11]))\<rparr>"

section \<open>Properties of the store operations\<close>

lemma find_id_Some: "find (\<lambda>e. entity_id e = i) xs = Some e \<Longrightarrow> entity_id e = i \<and> e \<in> set xs"
  by (auto simp: find_Some_iff)

lemma findEntityById_id: "findEntityById g i = Some e \<Longrightarrow> entity_id e = i"
  unfolding findEntityById_def by (drule find_id_Some) simp

lemma findEntityById_None_iff: "findEntityById g i = None \<longleftrightarrow> i \<notin> set (map entity_id (entities g))"
  by (auto simp: findEntityById_def find_None_iff)

lemma find_append_new:
  "find (\<lambda>e. entity_id e = j) (xs @ [x]) =
     (case find (\<lambda>e. entity_id e = j) xs of Some e \<Rightarrow> Some e
      | None \<Rightarrow> if entity_id x = j then Some x else None)"
  by (induction xs) simp_all

lemma find_overwrite:
  "entity_id e = i \<Longrightarrow>
   find (\<lambda>x. entity_id x = j) (map (\<lambda>x. if entity_id x = i then e else x) xs) =
     (if j = i then (case find (\<lambda>x. entity_id x = i) xs of None \<Rightarrow> None | Some _ \<Rightarrow> Some e)
      else find (\<lambda>x. entity_id x = j) xs)"
  by (induction xs) auto

lemma ids_overwrite:
  "entity_id e = i \<Longrightarrow>
   map entity_id (map (\<lambda>x. if entity_id x = i then e else x) xs) = map entity_id xs"
  by (induction xs) simp_all

lemma createEntity_new:
  "findEntityById g i = None \<Longrightarrow>
   createEntity g i t a =
     Inr (\<lparr>entity_id = i, entity_type = t, attributes = a\<rparr>,
          g\<lparr>entities := entities g @ [\<lparr>entity_id = i, entity_type = t, attributes = a\<rparr>]\<rparr>)"
  by (simp add: createEntity_def Let_def)

lemma createEntity_overwrite:
  "findEntityById g i = Some old \<Longrightarrow> policy g = Overwrite \<Longrightarrow>
   createEntity g i t a =
     Inr (\<lparr>entity_id = i, entity_type = t, attributes = a\<rparr>,
          g\<lparr>entities := map (\<lambda>x. if entity_id x = i
                 then \<lparr>entity_id = i, entity_type = t, attributes = a\<rparr> else x) (entities g)\<rparr>)"
proof -
  assume f: "findEntityById g i = Some old" and p: "policy g = Overwrite"
  have "entity_id old = i" using f by (rule findEntityById_id)
  then have "old\<lparr>entity_type := t, attributes := a\<rparr>
     = \<lparr>entity_id = i, entity_type = t, attributes = a\<rparr>"
    by (cases old) simp
  then show ?thesis using f p by (simp add: createEntity_def Let_def)
qed

lemma createEntity_reject:
  "findEntityById g i = Some old \<Longrightarrow> policy g = Reject \<Longrightarrow>
   createEntity g i t a = Inl DuplicateEntityError"
  by (simp add: createEntity_def Let_def)

lemma createEntity_Inr_cases:
  assumes "createEntity g i t a = Inr (e, g')"
  shows "e = \<lparr>entity_id = i, entity_type = t, attributes = a\<rparr> \<and>
         ((findEntityById g i = None \<and> g' = g\<lparr>entities := entities g @ [e]\<rparr>) \<or>
          (findEntityById g i \<noteq> None \<and> policy g = Overwrite \<and>
           g' = g\<lparr>entities := map (\<lambda>x. if entity_id x = i then e else x) (entities g)\<rparr>))"
proof (cases "findEntityById g i")
  case None
  then show ?thesis using assms by (auto simp add: createEntity_new)
next
  case (Some old)
  show ?thesis
  proof (cases "policy g")
    case Overwrite
    then show ?thesis using assms Some by (auto simp add: createEntity_overwrite)
  next
    case Reject
    then show ?thesis using assms Some by (simp add: createEntity_reject)
  qed
qed

lemma createEntity_handle:
  "createEntity g i t a = Inr (e, g') \<Longrightarrow>
   e = \<lparr>entity_id = i, entity_type = t, attributes = a\<rparr>"
  by (drule createEntity_Inr_cases) simp

lemma createEntity_frame:
  "createEntity g i t a = Inr (e, g') \<Longrightarrow>
   relationships g' = relationships g \<and> policy g' = policy g"
  by (drule createEntity_Inr_cases) auto

lemma createEntity_find:
  assumes "createEntity g i t a = Inr (e, g')"
  shows "findEntityById g' j =
     (if j = i then Some \<lparr>entity_id = i, entity_type = t, attributes = a\<rparr>
      else findEntityById g j)"
proof -
  note c = createEntity_Inr_cases [OF assms]
  then have e: "e = \<lparr>entity_id = i, entity_type = t, attributes = a\<rparr>" by simp
  from c consider
      (new) "findEntityById g i = None" "g' = g\<lparr>entities := entities g @ [e]\<rparr>"
    | (old) "findEntityById g i \<noteq> None"
        "g' = g\<lparr>entities := map (\<lambda>x. if entity_id x = i then e else x) (entities g)\<rparr>"
    by auto
  then show ?thesis
  proof cases
    case new
    then show ?thesis
      by (auto simp: findEntityById_def find_append_new e split: option.splits)
  next
    case old
    have "entity_id e = i" by (simp add: e)
    from find_overwrite [OF this, of j "entities g"] old show ?thesis
      by (auto simp: findEntityById_def e)
  qed
qed

lemma createEntity_ids:
  assumes "createEntity g i t a = Inr (e, g')"
  shows "map entity_id (entities g') =
     (if i \<in> set (map entity_id (entities g)) then map entity_id (entities g)
      else map entity_id (entities g) @ [i])"
proof -
  note c = createEntity_Inr_cases [OF assms]
  then have e: "entity_id e = i" by simp
  from c consider
      (new) "findEntityById g i = None" "g' = g\<lparr>entities := entities g @ [e]\<rparr>"
    | (old) "findEntityById g i \<noteq> None"
        "g' = g\<lparr>entities := map (\<lambda>x. if entity_id x = i then e else x) (entities g)\<rparr>"
    by auto
  then show ?thesis
  proof cases
    case new
    then show ?thesis using e by (simp add: findEntityById_None_iff)
  next
    case old
    then show ?thesis using ids_overwrite [OF e, of "entities g"]
      by (simp add: findEntityById_None_iff)
  qed
qed

lemma createEntity_total:
  assumes "policy g = Overwrite"
  shows "\<exists>g'. createEntity g i t a =
           Inr (\<lparr>entity_id = i, entity_type = t, attributes = a\<rparr>, g')"
proof (cases "findEntityById g i")
  case None
  then show ?thesis by (simp add: createEntity_new)
next
  case (Some old)
  then show ?thesis using assms by (simp add: createEntity_overwrite)
qed

lemma createEntity_distinct:
  assumes "createEntity g i t a = Inr (e, g')"
    and "distinct (map entity_id (entities g))"
  shows "distinct (map entity_id (entities g'))"
  using assms(2) by (simp add: createEntity_ids [OF assms(1)])

lemma createRelationship_Inr:
  "createRelationship g f t l = Inr (r, g') \<Longrightarrow>
   owns g f \<and> owns g t \<and> r = \<lparr>rel_from = entity_id f, rel_to = entity_id t, label = l\<rparr> \<and>
   g' = g\<lparr>relationships := relationships g @ [r]\<rparr>"
  by (auto simp: createRelationship_def Let_def split: if_splits)

lemma createRelationship_owned:
  "owns g f \<Longrightarrow> owns g t \<Longrightarrow>
   createRelationship g f t l =
     Inr (\<lparr>rel_from = entity_id f, rel_to = entity_id t, label = l\<rparr>,
          g\<lparr>relationships := relationships g
             @ [\<lparr>rel_from = entity_id f, rel_to = entity_id t, label = l\<rparr>]\<rparr>)"
  by (simp add: createRelationship_def Let_def)


subsection \<open>Histories of calls\<close>

lemma perform_createEntity:
  "policy g = Overwrite \<Longrightarrow>
   createEntity g i t a =
     Inr (\<lparr>entity_id = i, entity_type = t, attributes = a\<rparr>, perform g (CreateEntity i t a))"
  using createEntity_total [of g i t a] by auto

lemma perform_policy: "policy (perform g c) = policy g"
proof (cases c)
  case (CreateEntity i t a)
  then show ?thesis
    by (cases "createEntity g i t a") (auto dest: createEntity_frame)
next
  case (CreateRelationship f t l)
  then show ?thesis
    by (cases "createRelationship g f t l") (auto dest: createRelationship_Inr)
qed

lemma perform_find_created:
  "policy g = Overwrite \<Longrightarrow>
   findEntityById (perform g (CreateEntity i t a)) j =
     (if j = i then Some \<lparr>entity_id = i, entity_type = t, attributes = a\<rparr>
      else findEntityById g j)"
  by (rule createEntity_find [OF perform_createEntity])

lemma perform_find_related:
  "findEntityById (perform g (CreateRelationship f t l)) j = findEntityById g j"
  by (cases "createRelationship g f t l")
    (auto dest!: createRelationship_Inr simp: findEntityById_def)

lemma perform_relationships_created:
  "relationships (perform g (CreateEntity i t a)) = relationships g"
  by (cases "createEntity g i t a") (auto dest: createEntity_frame)

lemma perform_ids_related:
  "entities (perform g (CreateRelationship f t l)) = entities g"
  by (cases "createRelationship g f t l") (auto dest!: createRelationship_Inr)

declare perform.simps [simp del]

lemma perform_distinct:
  "distinct (map entity_id (entities g)) \<Longrightarrow>
   distinct (map entity_id (entities (perform g c)))"
proof (cases c)
  case (CreateEntity i t a)
  assume "distinct (map entity_id (entities g))"
  then show ?thesis using CreateEntity
    by (cases "createEntity g i t a") (auto simp: perform.simps dest: createEntity_distinct)
next
  case (CreateRelationship f t l)
  assume "distinct (map entity_id (entities g))"
  then show ?thesis using CreateRelationship by (simp add: perform_ids_related)
qed

lemma perform_find_mono:
  "findEntityById g j \<noteq> None \<Longrightarrow> findEntityById (perform g c) j \<noteq> None"
proof (cases c)
  case (CreateEntity i t a)
  assume "findEntityById g j \<noteq> None"
  then show ?thesis using CreateEntity
    by (cases "createEntity g i t a") (auto simp: perform.simps createEntity_find)
next
  case (CreateRelationship f t l)
  assume "findEntityById g j \<noteq> None"
  then show ?thesis using CreateRelationship by (simp add: perform_find_related)
qed

lemma performAll_policy: "policy (performAll g cs) = policy g"
  unfolding performAll_def by (induction cs arbitrary: g) (simp_all add: perform_policy)

lemma performAll_distinct:
  "distinct (map entity_id (entities g)) \<Longrightarrow>
   distinct (map entity_id (entities (performAll g cs)))"
  unfolding performAll_def by (induction cs arbitrary: g) (simp_all add: perform_distinct)

lemma performAll_find:
  "policy g = Overwrite \<Longrightarrow>
   findEntityById (performAll g cs) i =
     (case latest cs i of Some e \<Rightarrow> Some e | None \<Rightarrow> findEntityById g i)"
  unfolding performAll_def
proof (induction cs arbitrary: g)
  case Nil
  then show ?case by simp
next
  case (Cons c cs)
  have p: "policy (perform g c) = Overwrite" using Cons.prems by (simp add: perform_policy)
  show ?case
  proof (cases c)
    case (CreateEntity j t a)
    show ?thesis using Cons.IH [OF p] Cons.prems unfolding CreateEntity
      by (simp add: perform_find_created split: option.splits)
  next
    case (CreateRelationship f t l)
    show ?thesis using Cons.IH [OF p] unfolding CreateRelationship
      by (simp add: perform_find_related split: option.splits)
  qed
qed

lemma latest_None_iff: "latest cs i = None \<longleftrightarrow> i \<notin> set (createdIds cs)"
  by (induction cs i rule: latest.induct) (auto split: option.splits)

lemma filter_id_distinct:
  "distinct (map entity_id xs) \<Longrightarrow>
   filter (\<lambda>e. entity_id e = i) xs =
     (case find (\<lambda>e. entity_id e = i) xs of None \<Rightarrow> [] | Some e \<Rightarrow> [e])"
proof (induction xs)
  case Nil
  then show ?case by simp
next
  case (Cons x xs)
  show ?case
  proof (cases "entity_id x = i")
    case True
    then have "i \<notin> entity_id ` set xs" using Cons.prems by auto
    then have "filter (\<lambda>e. entity_id e = i) xs = []" by (auto simp: filter_empty_conv)
    then show ?thesis using True by simp
  next
    case False
    then show ?thesis using Cons by simp
  qed
qed

lemma createEntities_performAll:
  "policy g = Overwrite \<Longrightarrow>
   createEntities g xs = Inr (performAll g (map (\<lambda>(i, t, a). CreateEntity i t a) xs))"
proof (induction xs arbitrary: g)
  case Nil
  then show ?case by (simp add: performAll_def)
next
  case (Cons x xs)
  obtain i t a where x: "x = (i, t, a)" by (cases x)
  have p: "policy (perform g (CreateEntity i t a)) = Overwrite"
    using Cons.prems by (simp add: perform_policy)
  show ?case using Cons.IH [OF p] Cons.prems
    by (simp add: x perform_createEntity performAll_def)
qed


lemma findEntityById_newGraph: "findEntityById newGraph i = None"
  by (simp add: findEntityById_def newGraph_def)

lemma latest_append:
  "latest (cs @ ds) i = (case latest ds i of Some e \<Rightarrow> Some e | None \<Rightarrow> latest cs i)"
  by (induction cs i rule: latest.induct) (simp_all split: option.splits)

lemma latest_last_call:
  "i \<notin> set (createdIds zs) \<Longrightarrow>
   latest (ys @ CreateEntity i t a # zs) i =
     Some \<lparr>entity_id = i, entity_type = t, attributes = a\<rparr>"
  by (simp add: latest_append latest_None_iff [symmetric])

lemma createdIds_calls:
  "createdIds (map (\<lambda>(i, t, a). CreateEntity i t a) xs) = map fst xs"
  by (induction xs) auto

lemma performAll_newGraph_find: "findEntityById (performAll newGraph cs) i = latest cs i"
proof -
  have "policy (newGraph :: 'a Graph) = Overwrite" by (simp add: newGraph_def)
  from performAll_find [OF this, of cs i] show ?thesis
    by (simp add: findEntityById_newGraph split: option.splits)
qed





section \<open>The store: identity, lookup and relationships\<close>

text \<open>
  Claim C1. Whatever sequence of \<open>createEntity\<close> calls a store created empty receives
  under its default policy, no call throws, the store holds at most one entry per id
  (the ids of its entries are distinct and are exactly the ids asked for), and the one
  entry of an id has the type and the attributes of the last call for that id.
\<close>

theorem createEntity_identity_unique:
  "\<exists>g. createEntities newGraph xs = Inr g \<and>
       distinct (map entity_id (entities g)) \<and>
       set (map entity_id (entities g)) = fst ` set xs \<and>
       (\<forall>ys zs i t a. xs = ys @ (i, t, a) # zs \<and> i \<notin> fst ` set zs \<longrightarrow>
          filter (\<lambda>e. entity_id e = i) (entities g)
            = [\<lparr>entity_id = i, entity_type = t, attributes = a\<rparr>])"
proof -
  define cs where "cs = map (\<lambda>(i, t, a). CreateEntity i t a) xs"
  define g where "g = performAll (newGraph :: 'a Graph) cs"
  have run: "createEntities newGraph xs = Inr g"
    unfolding g_def cs_def by (rule createEntities_performAll) (simp add: newGraph_def)
  have d: "distinct (map entity_id (entities g))"
    unfolding g_def by (rule performAll_distinct) (simp add: newGraph_def)
  have f: "findEntityById g i = latest cs i" for i
    unfolding g_def by (rule performAll_newGraph_find)
  have ids: "set (map entity_id (entities g)) = fst ` set xs"
  proof -
    have "i \<in> set (map entity_id (entities g)) \<longleftrightarrow> i \<in> fst ` set xs" for i
      using findEntityById_None_iff [of g i] latest_None_iff [of cs i]
      by (simp add: f cs_def createdIds_calls)
    then show ?thesis by blast
  qed
  have one: "filter (\<lambda>e. entity_id e = i) (entities g)
      = [\<lparr>entity_id = i, entity_type = t, attributes = a\<rparr>]"
    if "xs = ys @ (i, t, a) # zs" and "i \<notin> fst ` set zs" for ys zs i t a
  proof -
    have "cs = map (\<lambda>(i, t, a). CreateEntity i t a) ys @ CreateEntity i t a
                 # map (\<lambda>(i, t, a). CreateEntity i t a) zs"
      by (simp add: cs_def that(1))
    moreover have "i \<notin> set (createdIds (map (\<lambda>(i, t, a). CreateEntity i t a) zs))"
      using that(2) by (simp add: createdIds_calls)
    ultimately have "latest cs i = Some \<lparr>entity_id = i, entity_type = t, attributes = a\<rparr>"
      by (simp add: latest_last_call)
    then have "find (\<lambda>e. entity_id e = i) (entities g)
        = Some \<lparr>entity_id = i, entity_type = t, attributes = a\<rparr>"
      using f [of i] by (simp add: findEntityById_def)
    then show ?thesis by (simp add: filter_id_distinct [OF d])
  qed
  show ?thesis using run d ids one by blast
qed

theorem createEntity_identity_unique_witness:
  "\<exists>g. createEntities (newGraph :: nat Graph)
          [(''user:1'', ''User'', 1), (''post:1'', ''Post'', 2), (''user:1'', ''Admin'', 3)] = Inr g \<and>
       distinct (map entity_id (entities g)) \<and>
       filter (\<lambda>e. entity_id e = ''user:1'') (entities g)
         = [\<lparr>entity_id = ''user:1'', entity_type = ''Admin'', attributes = 3\<rparr>]"
proof -
  from createEntity_identity_unique
    [of "[(''user:1'', ''User'', 1::nat), (''post:1'', ''Post'', 2), (''user:1'', ''Admin'', 3)]"]
  obtain g where run: "createEntities (newGraph :: nat Graph)
          [(''user:1'', ''User'', 1), (''post:1'', ''Post'', 2), (''user:1'', ''Admin'', 3)] = Inr g"
    and d: "distinct (map entity_id (entities g))"
    and one: "\<forall>ys zs i t a.
       [(''user:1'', ''User'', 1::nat), (''post:1'', ''Post'', 2), (''user:1'', ''Admin'', 3)]
         = ys @ (i, t, a) # zs \<and> i \<notin> fst ` set zs \<longrightarrow>
       filter (\<lambda>e. entity_id e = i) (entities g)
         = [\<lparr>entity_id = i, entity_type = t, attributes = a\<rparr>]"
    by blast
  from one [rule_format, of "[(''user:1'', ''User'', 1), (''post:1'', ''Post'', 2)]"
      "''user:1''" "''Admin''" 3 "[]"]
  have "filter (\<lambda>e. entity_id e = ''user:1'') (entities g)
         = [\<lparr>entity_id = ''user:1'', entity_type = ''Admin'', attributes = 3\<rparr>]"
    by simp
  with run d show ?thesis by blast
qed

text \<open>
  Claim C5. After any history of calls on a store created empty, \<open>findEntityById\<close>
  returns for an id the entity asked for by the last \<open>createEntity\<close> call of that id,
  with that call's type and attributes, and returns the value \<open>None\<close> for an id no
  call created; the lookup leaves the driver's store as it was.
\<close>

theorem findEntityById_lookup:
  "findEntityById (performAll newGraph cs) i = latest cs i \<and>
   (cs = ys @ CreateEntity i t a # zs \<and> i \<notin> set (createdIds zs) \<longrightarrow>
      findEntityById (performAll newGraph cs) i
        = Some \<lparr>entity_id = i, entity_type = t, attributes = a\<rparr>) \<and>
   (i \<notin> set (createdIds cs) \<longrightarrow> findEntityById (performAll newGraph cs) i = None) \<and>
   graph (snd (graph_findEntityById i s)) = graph s"
proof (intro conjI impI)
  show "findEntityById (performAll newGraph cs) i = latest cs i"
    by (rule performAll_newGraph_find)
  show "findEntityById (performAll newGraph cs) i
        = Some \<lparr>entity_id = i, entity_type = t, attributes = a\<rparr>"
    if "cs = ys @ CreateEntity i t a # zs \<and> i \<notin> set (createdIds zs)"
    using that by (simp add: performAll_newGraph_find latest_last_call)
  show "findEntityById (performAll newGraph cs) i = None" if "i \<notin> set (createdIds cs)"
    using that by (simp add: performAll_newGraph_find latest_None_iff)
  show "graph (snd (graph_findEntityById i s)) = graph s"
    by (simp add: graph_findEntityById_def emit_def)
qed

theorem findEntityById_lookup_witness:
  "findEntityById (performAll (newGraph :: nat Graph)
      [CreateEntity ''user:1'' ''User'' 1, CreateEntity ''user:1'' ''Admin'' 3]) ''user:1''
     = Some \<lparr>entity_id = ''user:1'', entity_type = ''Admin'', attributes = 3\<rparr> \<and>
   findEntityById (performAll (newGraph :: nat Graph)
      [CreateEntity ''user:1'' ''User'' 1, CreateEntity ''user:1'' ''Admin'' 3]) ''user:9'' = None"
  using findEntityById_lookup
      [of "[CreateEntity ''user:1'' ''User'' (1::nat), CreateEntity ''user:1'' ''Admin'' 3]"
          "''user:1''" "[CreateEntity ''user:1'' ''User'' 1]" "''Admin''" 3 "[]"]
    findEntityById_lookup
      [of "[CreateEntity ''user:1'' ''User'' (1::nat), CreateEntity ''user:1'' ''Admin'' 3]"
          "''user:9''"]
  by simp



text \<open>
  Claim C8. Every successful \<open>createRelationship\<close> call makes the relationship sequence
  one longer, and two calls with the same \<open>from\<close>, \<open>to\<close> and label on entities of
  the store both succeed and leave two entries, one after the other, at the end of the
  sequence.
\<close>

theorem relationships_not_deduplicated:
  "(createRelationship g f t l = Inr (r, g') \<longrightarrow>
      length (relationships g') = Suc (length (relationships g))) \<and>
   (owns g f \<and> owns g t \<longrightarrow>
      (\<exists>r1 g1 g2.
         createRelationship g f t l = Inr (r1, g1) \<and>
         createRelationship g1 f t l = Inr (r1, g2) \<and>
         r1 = \<lparr>rel_from = entity_id f, rel_to = entity_id t, label = l\<rparr> \<and>
         relationships g1 = relationships g @ [r1] \<and>
         relationships g2 = relationships g @ [r1, r1]))"
proof (intro conjI impI)
  assume "createRelationship g f t l = Inr (r, g')"
  from createRelationship_Inr [OF this]
  show "length (relationships g') = Suc (length (relationships g))" by simp
next
  assume o: "owns g f \<and> owns g t"
  define r1 where "r1 = \<lparr>rel_from = entity_id f, rel_to = entity_id t, label = l\<rparr>"
  define g1 where "g1 = g\<lparr>relationships := relationships g @ [r1]\<rparr>"
  define g2 where "g2 = g1\<lparr>relationships := relationships g1 @ [r1]\<rparr>"
  have o1: "owns g1 f" "owns g1 t" using o by (simp_all add: g1_def owns_def findEntityById_def)
  have "createRelationship g f t l = Inr (r1, g1)"
    using o by (simp add: createRelationship_owned r1_def g1_def)
  moreover have "createRelationship g1 f t l = Inr (r1, g2)"
    using o1 by (simp add: createRelationship_owned r1_def g2_def)
  moreover have "relationships g1 = relationships g @ [r1]" by (simp add: g1_def)
  moreover have "relationships g2 = relationships g @ [r1, r1]" by (simp add: g2_def g1_def)
  ultimately show "\<exists>r1 g1 g2.
         createRelationship g f t l = Inr (r1, g1) \<and>
         createRelationship g1 f t l = Inr (r1, g2) \<and>
         r1 = \<lparr>rel_from = entity_id f, rel_to = entity_id t, label = l\<rparr> \<and>
         relationships g1 = relationships g @ [r1] \<and>
         relationships g2 = relationships g @ [r1, r1]"
    using r1_def by blast
qed

theorem relationships_not_deduplicated_witness:
  "\<exists>r1 g1 g2.
     createRelationship \<lparr>policy = Overwrite,
        entities = [\<lparr>entity_id = ''user:1'', entity_type = ''User'', attributes = 0::nat\<rparr>,
                    \<lparr>entity_id = ''post:1'', entity_type = ''Post'', attributes = 1\<rparr>],
        relationships = []\<rparr>
      \<lparr>entity_id = ''user:1'', entity_type = ''User'', attributes = 0\<rparr>
      \<lparr>entity_id = ''post:1'', entity_type = ''Post'', attributes = 1\<rparr> ''HAS'' = Inr (r1, g1) \<and>
     createRelationship g1
      \<lparr>entity_id = ''user:1'', entity_type = ''User'', attributes = 0\<rparr>
      \<lparr>entity_id = ''post:1'', entity_type = ''Post'', attributes = 1\<rparr> ''HAS'' = Inr (r1, g2) \<and>
     relationships g2 = [r1, r1] \<and> length (relationships g2) = 2"
proof -
  define g :: "nat Graph" where "g = \<lparr>policy = Overwrite,
        entities = [\<lparr>entity_id = ''user:1'', entity_type = ''User'', attributes = 0::nat\<rparr>,
                    \<lparr>entity_id = ''post:1'', entity_type = ''Post'', attributes = 1\<rparr>],
        relationships = []\<rparr>"
  define u :: "nat Entity" where
    "u = \<lparr>entity_id = ''user:1'', entity_type = ''User'', attributes = 0\<rparr>"
  define p :: "nat Entity" where
    "p = \<lparr>entity_id = ''post:1'', entity_type = ''Post'', attributes = 1\<rparr>"
  have o: "owns g u \<and> owns g p"
    by (simp add: owns_def findEntityById_def g_def u_def p_def)
  have r: "relationships g = []" by (simp add: g_def)
  from relationships_not_deduplicated [of g u p "''HAS''", THEN conjunct2, rule_format, OF o]
  obtain r1 g1 g2 where
    "createRelationship g u p ''HAS'' = Inr (r1, g1)"
    "createRelationship g1 u p ''HAS'' = Inr (r1, g2)"
    "relationships g2 = relationships g @ [r1, r1]"
    by blast
  then have "createRelationship g u p ''HAS'' = Inr (r1, g1) \<and>
     createRelationship g1 u p ''HAS'' = Inr (r1, g2) \<and>
     relationships g2 = [r1, r1] \<and> length (relationships g2) = 2"
    using r by simp
  then show ?thesis unfolding g_def u_def p_def by blast
qed

section \<open>Properties of the driver's callbacks\<close>

lemma graph_emit: "graph (emit ev s) = graph s"
  by (simp add: emit_def)

lemma trace_emit: "trace (emit ev s) = trace s @ [ev]"
  by (simp add: emit_def)

lemma getPostId_not_user: "getPostId post \<noteq> ''user:'' @ x"
  by (simp add: getPostId_def)

lemma getUserId_not_post: "getUserId user \<noteq> ''post:'' @ x"
  by (simp add: getUserId_def)

lemma userCallback_run:
  assumes "policy (graph s) = Overwrite"
  shows "async userCallback user s =
     (\<lparr>graph = perform (graph s) (CreateEntity (getUserId user) ''User'' (UserRecord user)),
       trace = trace s @ [CreateEntityEv (getUserId user) ''User'']\<rparr>, None)"
  by (simp add: async_def userCallback_def graph_createEntity_def
      perform_createEntity [OF assms] emit_def)

lemma postCallback_run:
  assumes "policy (graph s) = Overwrite"
  shows "async postCallback post s =
     (case findEntityById (graph s) (''user:'' @ number_to_string (userId post)) of
        None \<Rightarrow>
          (\<lparr>graph = perform (graph s) (CreateEntity (getPostId post) ''Post'' (PostRecord post)),
            trace = trace s @ [CreateEntityEv (getPostId post) ''Post'',
              FindEntityByIdEv (''user:'' @ number_to_string (userId post))]\<rparr>, None)
      | Some _ \<Rightarrow>
          (\<lparr>graph = (perform (graph s) (CreateEntity (getPostId post) ''Post'' (PostRecord post)))
              \<lparr>relationships := relationships (graph s) @
                 [\<lparr>rel_from = ''user:'' @ number_to_string (userId post),
                   rel_to = getPostId post, label = ''HAS''\<rparr>]\<rparr>,
            trace = trace s @ [CreateEntityEv (getPostId post) ''Post'',
              FindEntityByIdEv (''user:'' @ number_to_string (userId post)),
              CreateRelationshipEv (''user:'' @ number_to_string (userId post))
                (getPostId post) ''HAS'']\<rparr>, None))"
proof -
  define pid where "pid = getPostId post"
  define uid where "uid = ''user:'' @ number_to_string (userId post)"
  define g1 where "g1 = perform (graph s) (CreateEntity pid ''Post'' (PostRecord post))"
  define pe where "pe = \<lparr>entity_id = pid, entity_type = ''Post'', attributes = PostRecord post\<rparr>"
  have ne: "uid \<noteq> pid" unfolding uid_def pid_def using getPostId_not_user by metis
  have c: "createEntity (graph s) pid ''Post'' (PostRecord post) = Inr (pe, g1)"
    unfolding pe_def g1_def by (rule perform_createEntity [OF assms])
  have f: "findEntityById g1 j = (if j = pid then Some pe else findEntityById (graph s) j)" for j
    unfolding pe_def g1_def by (rule perform_find_created [OF assms])
  have r1: "relationships g1 = relationships (graph s)"
    unfolding g1_def by (rule perform_relationships_created)
  have step1: "graph_createEntity pid ''Post'' (PostRecord post) s
      = (Inr pe, \<lparr>graph = g1, trace = trace s @ [CreateEntityEv pid ''Post'']\<rparr>)"
    by (simp add: graph_createEntity_def c emit_def)
  have body: "postCallback post s =
     (case graph_findEntityById uid
             \<lparr>graph = g1, trace = trace s @ [CreateEntityEv pid ''Post'']\<rparr> of
        (None, s2) \<Rightarrow> (s2, None)
      | (Some userEntity, s2) \<Rightarrow>
          (case graph_createRelationship userEntity pe ''HAS'' s2 of
             (Inl e, s3) \<Rightarrow> (s3, Some e)
           | (Inr _, s3) \<Rightarrow> (s3, None)))"
    unfolding postCallback_def pid_def [symmetric] uid_def [symmetric] step1 by simp
  have "async postCallback post s =
     (case findEntityById (graph s) uid of
        None \<Rightarrow>
          (\<lparr>graph = g1,
            trace = trace s @ [CreateEntityEv pid ''Post'', FindEntityByIdEv uid]\<rparr>, None)
      | Some _ \<Rightarrow>
          (\<lparr>graph = g1\<lparr>relationships := relationships (graph s) @
                 [\<lparr>rel_from = uid, rel_to = pid, label = ''HAS''\<rparr>]\<rparr>,
            trace = trace s @ [CreateEntityEv pid ''Post'', FindEntityByIdEv uid,
              CreateRelationshipEv uid pid ''HAS'']\<rparr>, None))"
  proof (cases "findEntityById (graph s) uid")
    case None
    then have "findEntityById g1 uid = None" using ne by (simp add: f)
    then show ?thesis using None
      by (simp add: async_def body graph_findEntityById_def emit_def)
  next
    case (Some u)
    then have fu: "findEntityById g1 uid = Some u" using ne by (simp add: f)
    have iu: "entity_id u = uid" using Some by (rule findEntityById_id)
    have o: "owns g1 u" "owns g1 pe" using fu by (simp_all add: owns_def iu f pe_def)
    have cr: "createRelationship g1 u pe ''HAS'' =
        Inr (\<lparr>rel_from = uid, rel_to = pid, label = ''HAS''\<rparr>,
             g1\<lparr>relationships := relationships (graph s) @
                [\<lparr>rel_from = uid, rel_to = pid, label = ''HAS''\<rparr>]\<rparr>)"
      using createRelationship_owned [OF o, of "''HAS''"] by (simp add: iu pe_def r1)
    have pe_id: "entity_id pe = pid" by (simp add: pe_def)
    show ?thesis using Some fu
      by (simp add: async_def body graph_findEntityById_def graph_createRelationship_def
          emit_def cr iu pe_id)
  qed
  then show ?thesis unfolding pid_def uid_def g1_def .
qed

subsection \<open>Fetching and iterating\<close>

lemma forEach_preserves:
  assumes step: "\<And>x s. I s \<Longrightarrow> snd (cb x s) = None \<and> I (fst (cb x s))"
    and "I s"
  shows "snd (forEach cb xs s) = None \<and> I (fst (forEach cb xs s))"
  using assms(2)
proof (induction xs arbitrary: s)
  case Nil
  then show ?case by simp
next
  case (Cons x xs)
  obtain s' where c: "cb x s = (s', None)" and i: "I s'"
    using step [OF Cons.prems, of x] by (cases "cb x s") auto
  show ?case using Cons.IH [OF i] by (simp add: c)
qed

lemma emit_eq: "emit ev s = \<lparr>graph = graph s, trace = trace s @ [ev]\<rparr>"
  by (cases s) (simp add: emit_def)

lemma get_result:
  "fst (get fetch b p s) = (case fetch (withBaseUrl b p) of Data d \<Rightarrow> Some d | Throws _ \<Rightarrow> None)"
  by (simp add: get_def Let_def split: fetch_outcome.splits error.splits)

lemma get_graph: "graph (snd (get fetch b p s)) = graph s"
  by (simp add: get_def Let_def emit_def split: fetch_outcome.splits error.splits)

lemma get_trace:
  "trace (snd (get fetch b p s)) =
     trace s @ FetchEv (withBaseUrl b p) #
       (case fetch (withBaseUrl b p) of
          Throws (FetchError code message) \<Rightarrow> [LogEv (log_line b p code message)]
        | _ \<Rightarrow> [])"
  by (simp add: get_def Let_def emit_def split: fetch_outcome.splits error.splits)

lemma delivered_Some:
  "delivered outcome = Some xs \<longleftrightarrow> outcome = Data (Array xs)"
  by (simp add: delivered_def split: fetch_outcome.splits json.splits)

lemma iterateUsers_delivered:
  assumes "delivered (fetch (withBaseUrl b ''/users'')) = Some us"
  shows "iterateUsers fetch b cb s =
     forEach cb us \<lparr>graph = graph s, trace = trace s @ [FetchEv (withBaseUrl b ''/users'')]\<rparr>"
  using assms by (simp add: delivered_Some iterateUsers_def get_def Let_def emit_eq)

lemma iteratePosts_delivered:
  assumes "delivered (fetch (withBaseUrl b ''/posts'')) = Some ps"
  shows "iteratePosts fetch b cb s =
     forEach cb ps \<lparr>graph = graph s, trace = trace s @ [FetchEv (withBaseUrl b ''/posts'')]\<rparr>"
  using assms by (simp add: delivered_Some iteratePosts_def get_def Let_def emit_eq)

lemma iterateUsers_failed:
  assumes "delivered (fetch (withBaseUrl b ''/users'')) = None"
  shows "iterateUsers fetch b cb s = (snd (get fetch b ''/users'' s), Some TypeError)"
  using assms
  by (auto simp: delivered_def iterateUsers_def get_def Let_def
      split: fetch_outcome.splits json.splits error.splits)

lemma iteratePosts_failed:
  assumes "delivered (fetch (withBaseUrl b ''/posts'')) = None"
  shows "iteratePosts fetch b cb s = (snd (get fetch b ''/posts'' s), Some TypeError)"
  using assms
  by (auto simp: delivered_def iteratePosts_def get_def Let_def
      split: fetch_outcome.splits json.splits error.splits)

lemma forEach_users:
  assumes "policy (graph s) = Overwrite"
  shows "forEach (async userCallback) us s =
     (\<lparr>graph = performAll (graph s) (map userCall us),
       trace = trace s @ map (\<lambda>u. CreateEntityEv (getUserId u) ''User'') us\<rparr>, None)"
  using assms
proof (induction us arbitrary: s)
  case Nil
  then show ?case by (simp add: performAll_def)
next
  case (Cons u us)
  let ?s1 = "\<lparr>graph = perform (graph s) (userCall u),
       trace = trace s @ [CreateEntityEv (getUserId u) ''User'']\<rparr>"
  have "policy (graph ?s1) = Overwrite" using Cons.prems by (simp add: perform_policy)
  from Cons.IH [OF this] show ?case
    by (simp add: userCallback_run [OF Cons.prems] userCall_def [symmetric] performAll_def)
qed

subsection \<open>The effect of the post callback\<close>

lemma findEntityById_relationships_update:
  "findEntityById (g\<lparr>relationships := rs\<rparr>) j = findEntityById g j"
  by (simp add: findEntityById_def)

lemma postCallback_effect:
  assumes "policy (graph s) = Overwrite"
  shows "snd (async postCallback post s) = None \<and>
    policy (graph (fst (async postCallback post s))) = Overwrite \<and>
    (\<forall>j. findEntityById (graph (fst (async postCallback post s))) j =
       (if j = getPostId post
        then Some \<lparr>entity_id = getPostId post, entity_type = ''Post'',
                    attributes = PostRecord post\<rparr>
        else findEntityById (graph s) j)) \<and>
    relationships (graph (fst (async postCallback post s))) =
      relationships (graph s) @
        (case findEntityById (graph s) (''user:'' @ number_to_string (userId post)) of
           None \<Rightarrow> []
         | Some _ \<Rightarrow> [\<lparr>rel_from = ''user:'' @ number_to_string (userId post),
                        rel_to = getPostId post, label = ''HAS''\<rparr>]) \<and>
    trace (fst (async postCallback post s)) =
      trace s @ [CreateEntityEv (getPostId post) ''Post'',
                 FindEntityByIdEv (''user:'' @ number_to_string (userId post))] @
        (case findEntityById (graph s) (''user:'' @ number_to_string (userId post)) of
           None \<Rightarrow> []
         | Some _ \<Rightarrow> [CreateRelationshipEv (''user:'' @ number_to_string (userId post))
                        (getPostId post) ''HAS''])"
proof (cases "findEntityById (graph s) (''user:'' @ number_to_string (userId post))")
  case None
  show ?thesis
    unfolding postCallback_run [OF assms] None
    by (simp add: perform_policy assms perform_find_created perform_relationships_created
        del: append.simps)
next
  case (Some u)
  show ?thesis
    unfolding postCallback_run [OF assms] Some
    by (simp add: perform_policy assms perform_find_created findEntityById_relationships_update
        del: append.simps)
qed

lemma ref_integrity_step:
  assumes "ref_integrity g"
    and "\<And>j. findEntityById g j \<noteq> None \<Longrightarrow> findEntityById g' j \<noteq> None"
    and "relationships g' = relationships g @ rs"
    and "list_all (\<lambda>r. findEntityById g' (rel_from r) \<noteq> None \<and>
                        findEntityById g' (rel_to r) \<noteq> None) rs"
  shows "ref_integrity g'"
  using assms unfolding ref_integrity_def list_all_iff by auto

lemma perform_ref_integrity:
  assumes "ref_integrity g"
  shows "ref_integrity (perform g c)"
proof (cases c)
  case (CreateEntity i t a)
  show ?thesis
    unfolding CreateEntity
    by (rule ref_integrity_step [OF assms, where rs = "[]"])
      (simp_all add: perform_find_mono perform_relationships_created)
next
  case (CreateRelationship f t l)
  show ?thesis
  proof (cases "createRelationship g f t l")
    case (Inl e)
    then show ?thesis using assms by (simp add: CreateRelationship perform.simps)
  next
    case (Inr p)
    obtain r g' where p: "p = (r, g')" by (cases p)
    note c = createRelationship_Inr [OF Inr [unfolded p]]
    have g': "perform g c = g'" by (simp add: CreateRelationship perform.simps Inr p)
    show ?thesis unfolding g'
      by (rule ref_integrity_step [OF assms, where rs = "[r]"])
        (use c in \<open>auto simp: owns_def findEntityById_def\<close>)
  qed
qed

lemma performAll_ref_integrity:
  "ref_integrity g \<Longrightarrow> ref_integrity (performAll g cs)"
  unfolding performAll_def by (induction cs arbitrary: g) (simp_all add: perform_ref_integrity)

lemma ref_integrity_newGraph: "ref_integrity newGraph"
  by (simp add: ref_integrity_def newGraph_def)

lemma postCallback_ref_integrity:
  assumes "policy (graph s) = Overwrite" and "ref_integrity (graph s)"
  shows "ref_integrity (graph (fst (async postCallback post s)))"
proof -
  note e = postCallback_effect [OF assms(1), of post]
  show ?thesis
  proof (rule ref_integrity_step [OF assms(2)])
    show "findEntityById (graph (fst (async postCallback post s))) j \<noteq> None"
      if "findEntityById (graph s) j \<noteq> None" for j
      using e that by simp
    show "relationships (graph (fst (async postCallback post s))) =
      relationships (graph s) @
        (case findEntityById (graph s) (''user:'' @ number_to_string (userId post)) of
           None \<Rightarrow> []
         | Some _ \<Rightarrow> [\<lparr>rel_from = ''user:'' @ number_to_string (userId post),
                        rel_to = getPostId post, label = ''HAS''\<rparr>])"
      using e by blast
    show "list_all (\<lambda>r. findEntityById (graph (fst (async postCallback post s))) (rel_from r) \<noteq> None \<and>
                        findEntityById (graph (fst (async postCallback post s))) (rel_to r) \<noteq> None)
        (case findEntityById (graph s) (''user:'' @ number_to_string (userId post)) of
           None \<Rightarrow> []
         | Some _ \<Rightarrow> [\<lparr>rel_from = ''user:'' @ number_to_string (userId post),
                        rel_to = getPostId post, label = ''HAS''\<rparr>])"
      using e by (auto split: option.splits)
  qed
qed

subsection \<open>The three ways a run ends\<close>

lemma main_users_failed:
  assumes "delivered (fetch_users net usersUrl) = None"
  shows "main net =
     (snd (get (fetch_users net) baseUrl ''/users'' \<lparr>graph = newGraph, trace = []\<rparr>),
      Some TypeError)"
  using assms by (simp add: main_def usersUrl_def iterateUsers_failed)

lemma main_posts_failed:
  assumes "delivered (fetch_users net usersUrl) = Some us"
    and "delivered (fetch_posts net postsUrl) = None"
  shows "main net =
     (snd (get (fetch_posts net) baseUrl ''/posts''
        \<lparr>graph = performAll newGraph (map userCall us),
          trace = FetchEv usersUrl # map (\<lambda>u. CreateEntityEv (getUserId u) ''User'') us\<rparr>),
      Some TypeError)"
proof -
  have p: "policy (graph \<lparr>graph = newGraph,
      trace = [] @ [FetchEv (withBaseUrl baseUrl ''/users'')]\<rparr>) = Overwrite"
    by (simp add: newGraph_def)
  show ?thesis
    using assms
    by (simp add: main_def usersUrl_def postsUrl_def iterateUsers_delivered
        forEach_users [OF p, simplified] iteratePosts_failed)
qed

lemma main_delivered:
  assumes "delivered (fetch_users net usersUrl) = Some us"
    and "delivered (fetch_posts net postsUrl) = Some ps"
  shows "main net =
     forEach (async postCallback) ps
        \<lparr>graph = performAll newGraph (map userCall us),
          trace = FetchEv usersUrl # map (\<lambda>u. CreateEntityEv (getUserId u) ''User'') us
            @ [FetchEv postsUrl]\<rparr>"
proof -
  have p: "policy (graph \<lparr>graph = newGraph,
      trace = [] @ [FetchEv (withBaseUrl baseUrl ''/users'')]\<rparr>) = Overwrite"
    by (simp add: newGraph_def)
  show ?thesis
    using assms
    by (simp add: main_def usersUrl_def postsUrl_def iterateUsers_delivered
        forEach_users [OF p, simplified] iteratePosts_delivered)
qed

lemma graph_createEntity_graph:
  "graph (snd (graph_createEntity i t a s)) = perform (graph s) (CreateEntity i t a)"
  by (cases "createEntity (graph s) i t a")
    (auto simp: graph_createEntity_def Let_def emit_def perform.simps)

lemma get_no_rejection:
  "list_all (\<lambda>e. \<not> rejection e) (trace s) \<Longrightarrow>
   list_all (\<lambda>e. \<not> rejection e) (trace (snd (get fetch b p s)))"
  by (simp add: get_trace split: fetch_outcome.splits error.splits)

lemma postCallback_no_rejection:
  assumes "policy (graph s) = Overwrite" and "list_all (\<lambda>e. \<not> rejection e) (trace s)"
  shows "list_all (\<lambda>e. \<not> rejection e) (trace (fst (async postCallback post s)))"
  using assms(2) postCallback_effect [OF assms(1), of post]
  by (simp split: option.splits)

lemma main_integrity:
  "ref_integrity (graph (fst (main net))) \<and>
   list_all (\<lambda>e. \<not> rejection e) (trace (fst (main net)))"
proof (cases "delivered (fetch_users net usersUrl)")
  case None
  show ?thesis
    unfolding main_users_failed [OF None]
    by (simp add: get_graph get_no_rejection ref_integrity_newGraph)
next
  case (Some us)
  have u: "ref_integrity (performAll (newGraph :: payload Graph) (map userCall us))"
    by (rule performAll_ref_integrity [OF ref_integrity_newGraph])
  have nr: "list_all (\<lambda>e. \<not> rejection e)
      (FetchEv usersUrl # map (\<lambda>u. CreateEntityEv (getUserId u) ''User'') us)"
    by (simp add: list_all_iff)
  show ?thesis
  proof (cases "delivered (fetch_posts net postsUrl)")
    case None
    show ?thesis
      unfolding main_posts_failed [OF Some None]
      using u nr by (simp add: get_graph get_no_rejection)
  next
    case (Some ps)
    let ?I = "\<lambda>s. policy (graph s) = Overwrite \<and> ref_integrity (graph s) \<and>
      list_all (\<lambda>e. \<not> rejection e) (trace s)"
    have step: "snd (async postCallback x s) = None \<and> ?I (fst (async postCallback x s))"
      if "?I s" for x s
      using that postCallback_effect [of s x] postCallback_ref_integrity [of s x]
        postCallback_no_rejection [of s x]
      by simp
    have init: "?I \<lparr>graph = performAll newGraph (map userCall us),
          trace = FetchEv usersUrl # map (\<lambda>u. CreateEntityEv (getUserId u) ''User'') us
            @ [FetchEv postsUrl]\<rparr>"
      using u nr by (simp add: performAll_policy newGraph_def)
    from forEach_preserves [of ?I "async postCallback", OF step init, of ps]
    show ?thesis
      unfolding main_delivered [OF \<open>delivered (fetch_users net usersUrl) = Some us\<close> Some]
      by simp
  qed
qed



subsection \<open>The two fixtures, evaluated\<close>

lemma number_to_string_1: "number_to_string 1 = ''1''"
  by (simp add: number_to_string_def nat_to_string.simps digit_char_def)

lemma number_to_string_10: "number_to_string 10 = ''10''"
  by (simp add: number_to_string_def nat_to_string.simps digit_char_def)

lemma number_to_string_11: "number_to_string 11 = ''11''"
  by (simp add: number_to_string_def nat_to_string.simps digit_char_def)

lemma number_to_string_99: "number_to_string 99 = ''99''"
  by (simp add: number_to_string_def nat_to_string.simps digit_char_def)

lemma main_orphan_network:
  "main orphan_network =
     (\<lparr>graph = \<lparr>policy = Overwrite,
         entities = [\<lparr>entity_id = ''user:1'', entity_type = ''User'', attributes = UserRecord user1\<rparr>,
                     \<lparr>entity_id = ''post:10'', entity_type = ''Post'', attributes = PostRecord post10\<rparr>,
                     \<lparr>entity_id = ''post:11'', entity_type = ''Post'', attributes = PostRecord post11\<rparr>],
         relationships = [\<lparr>rel_from = ''user:1'', rel_to = ''post:10'', label = ''HAS''\<rparr>]\<rparr>,
       trace = [FetchEv usersUrl, CreateEntityEv ''user:1'' ''User'', FetchEv postsUrl,
                CreateEntityEv ''post:10'' ''Post'', FindEntityByIdEv ''user:1'',
                CreateRelationshipEv ''user:1'' ''post:10'' ''HAS'',
                CreateEntityEv ''post:11'' ''Post'', FindEntityByIdEv ''user:99'']\<rparr>, None)"
proof -
  have ids: "getUserId user1 = ''user:1''" "getPostId post10 = ''post:10''"
    "getPostId post11 = ''post:11''" "userId post10 = 1" "userId post11 = 99"
    by (simp_all add: getUserId_def getPostId_def user1_def post10_def post11_def
        number_to_string_1 number_to_string_10 number_to_string_11)
  show ?thesis
    by (simp add: main_def orphan_network_def iterateUsers_def iteratePosts_def get_def
        emit_eq async_def userCallback_def postCallback_def graph_createEntity_def
        graph_findEntityById_def graph_createRelationship_def createEntity_def
        createRelationship_def owns_def findEntityById_def newGraph_def ids Let_def
        number_to_string_1 number_to_string_99 usersUrl_def postsUrl_def)
qed

lemma main_refused_network:
  "main refused_network =
     (\<lparr>graph = newGraph,
       trace = [FetchEv usersUrl,
                LogEv (log_line baseUrl ''/users'' (Some ''ECONNREFUSED'') ''request failed'')]\<rparr>,
      Some TypeError)"
  by (simp add: main_def refused_network_def iterateUsers_def get_def emit_eq usersUrl_def)

section \<open>The driver: wiring, integrity and failure of a fetch\<close>

text \<open>
  Claim C2. At every point of every run of the driver the store has referential
  integrity: both endpoints of each relationship can be looked up by their ids. This
  holds of the store a run ends with, whatever the network delivers or fails to deliver
  (so of the store after each record of a run), and each callback keeps it, as does
  the creation of the post entity that precedes the lookup. No call of the driver is
  ever rejected: no relationship is attempted on an entity the store does not hold.
\<close>

theorem driver_referential_integrity:
  "ref_integrity (graph (fst (main net))) \<and>
   list_all (\<lambda>e. \<not> rejection e) (trace (fst (main net))) \<and>
   (policy (graph s) = Overwrite \<and> ref_integrity (graph s) \<longrightarrow>
      ref_integrity (graph (fst (async userCallback user s))) \<and>
      ref_integrity (graph (snd (graph_createEntity (getPostId post) ''Post''
         (PostRecord post) s))) \<and>
      ref_integrity (graph (fst (async postCallback post s))))"
proof (intro conjI impI)
  show "ref_integrity (graph (fst (main net)))" using main_integrity by blast
  show "list_all (\<lambda>e. \<not> rejection e) (trace (fst (main net)))" using main_integrity by blast
next
  assume a: "policy (graph s) = Overwrite \<and> ref_integrity (graph s)"
  then show "ref_integrity (graph (fst (async userCallback user s)))"
    by (simp add: userCallback_run perform_ref_integrity)
  from a show "ref_integrity (graph (snd (graph_createEntity (getPostId post) ''Post''
         (PostRecord post) s)))"
    by (simp add: graph_createEntity_graph perform_ref_integrity)
  from a show "ref_integrity (graph (fst (async postCallback post s)))"
    by (simp add: postCallback_ref_integrity)
qed

theorem driver_referential_integrity_witness:
  "policy (graph \<lparr>graph = newGraph, trace = []\<rparr>) = Overwrite \<and>
   ref_integrity (graph \<lparr>graph = newGraph, trace = []\<rparr>) \<and>
   ref_integrity (graph (fst (async postCallback post10 \<lparr>graph = newGraph, trace = []\<rparr>))) \<and>
   ref_integrity (graph (fst (async userCallback user1 \<lparr>graph = newGraph, trace = []\<rparr>))) \<and>
   ref_integrity (graph (fst (main orphan_network))) \<and>
   relationships (graph (fst (main orphan_network)))
     = [\<lparr>rel_from = ''user:1'', rel_to = ''post:10'', label = ''HAS''\<rparr>]"
proof -
  have h: "policy (graph \<lparr>graph = newGraph, trace = []\<rparr>) = Overwrite \<and>
      ref_integrity (graph \<lparr>graph = newGraph, trace = []\<rparr>)"
    by (simp add: newGraph_def ref_integrity_def)
  from driver_referential_integrity
    [of orphan_network "\<lparr>graph = newGraph, trace = []\<rparr>" user1 post10] h
  show ?thesis by (simp add: main_orphan_network)
qed

text \<open>
  Claim C3. The post callback creates the post entity, then looks up the id
  \<open>"user:" + post.userId\<close> (the creation does not change what that lookup finds). When
  the lookup finds an entity, exactly one relationship, labelled \<open>HAS\<close>, from that id to
  the post's id is appended; when it finds none, the relationships are unchanged. In
  both cases the callback raises nothing and its effects are these calls and no other.
  On the fixture with person 1 and the posts 10 (of person 1) and 11 (of person 99) the
  run ends without error with one \<open>User\<close> entity, two \<open>Post\<close> entities and the single
  relationship from \<open>user:1\<close> to \<open>post:10\<close>.
\<close>

theorem post_wiring:
  assumes "policy (graph s) = Overwrite"
  shows "snd (async postCallback post s) = None \<and>
    trace (fst (async postCallback post s)) =
      trace s @ [CreateEntityEv (getPostId post) ''Post'',
                 FindEntityByIdEv (''user:'' @ number_to_string (userId post))] @
        (case findEntityById (graph s) (''user:'' @ number_to_string (userId post)) of
           None \<Rightarrow> []
         | Some _ \<Rightarrow> [CreateRelationshipEv (''user:'' @ number_to_string (userId post))
                        (getPostId post) ''HAS'']) \<and>
    findEntityById (graph (snd (graph_createEntity (getPostId post) ''Post''
        (PostRecord post) s))) (''user:'' @ number_to_string (userId post))
      = findEntityById (graph s) (''user:'' @ number_to_string (userId post)) \<and>
    relationships (graph (fst (async postCallback post s))) =
      relationships (graph s) @
        (case findEntityById (graph s) (''user:'' @ number_to_string (userId post)) of
           None \<Rightarrow> []
         | Some _ \<Rightarrow> [\<lparr>rel_from = ''user:'' @ number_to_string (userId post),
                        rel_to = getPostId post, label = ''HAS''\<rparr>]) \<and>
    findEntityById (graph (fst (async postCallback post s))) (getPostId post)
      = Some \<lparr>entity_id = getPostId post, entity_type = ''Post'',
               attributes = PostRecord post\<rparr> \<and>
    snd (main orphan_network) = None \<and>
    map (\<lambda>e. (entity_id e, entity_type e)) (entities (graph (fst (main orphan_network))))
      = [(''user:1'', ''User''), (''post:10'', ''Post''), (''post:11'', ''Post'')] \<and>
    relationships (graph (fst (main orphan_network)))
      = [\<lparr>rel_from = ''user:1'', rel_to = ''post:10'', label = ''HAS''\<rparr>]"
proof -
  note e = postCallback_effect [OF assms, of post]
  have lookup: "findEntityById (graph (snd (graph_createEntity (getPostId post) ''Post''
        (PostRecord post) s))) (''user:'' @ number_to_string (userId post))
      = findEntityById (graph s) (''user:'' @ number_to_string (userId post))"
    using getPostId_not_user [of post "number_to_string (userId post)"]
    by (simp add: graph_createEntity_graph perform_find_created [OF assms] del: append.simps)
  have stored: "findEntityById (graph (fst (async postCallback post s))) (getPostId post)
      = Some \<lparr>entity_id = getPostId post, entity_type = ''Post'',
               attributes = PostRecord post\<rparr>"
    using e by simp
  show ?thesis
    using e lookup stored by (simp add: main_orphan_network del: append.simps)
qed

theorem post_wiring_witness:
  "policy (graph \<lparr>graph = newGraph, trace = []\<rparr>) = Overwrite \<and>
   trace (fst (async postCallback post11 \<lparr>graph = newGraph, trace = []\<rparr>))
     = [CreateEntityEv ''post:11'' ''Post'', FindEntityByIdEv ''user:99''] \<and>
   relationships (graph (fst (async postCallback post11 \<lparr>graph = newGraph, trace = []\<rparr>))) = [] \<and>
   snd (async postCallback post11 \<lparr>graph = newGraph, trace = []\<rparr>) = None \<and>
   relationships (graph (fst (async postCallback post10
       \<lparr>graph = \<lparr>policy = Overwrite,
           entities = [\<lparr>entity_id = ''user:1'', entity_type = ''User'',
                         attributes = UserRecord user1\<rparr>],
           relationships = []\<rparr>, trace = []\<rparr>)))
     = [\<lparr>rel_from = ''user:1'', rel_to = ''post:10'', label = ''HAS''\<rparr>]"
proof -
  have p: "policy (graph \<lparr>graph = newGraph, trace = []\<rparr>) = Overwrite"
    by (simp add: newGraph_def)
  have ids: "getPostId post11 = ''post:11''" "userId post11 = 99"
    "getPostId post10 = ''post:10''" "userId post10 = 1"
    by (simp_all add: getPostId_def post11_def post10_def number_to_string_11
        number_to_string_10)
  have f: "findEntityById (newGraph :: payload Graph) ''user:99'' = None"
    by (rule findEntityById_newGraph)
  define s1 where "s1 = \<lparr>graph = \<lparr>policy = Overwrite,
           entities = [\<lparr>entity_id = ''user:1'', entity_type = ''User'',
                         attributes = UserRecord user1\<rparr>],
           relationships = []\<rparr>, trace = []\<rparr>"
  have p1: "policy (graph s1) = Overwrite" by (simp add: s1_def)
  have f1: "findEntityById (graph s1) ''user:1'' \<noteq> None"
    by (simp add: s1_def findEntityById_def)
  have r1: "relationships (graph s1) = []" by (simp add: s1_def)
  have found: "relationships (graph (fst (async postCallback post10 s1)))
     = [\<lparr>rel_from = ''user:1'', rel_to = ''post:10'', label = ''HAS''\<rparr>]"
    using post_wiring [OF p1, of post10] f1 r1
    by (auto simp: ids number_to_string_1)
  from post_wiring [OF p, of post11] p f found show ?thesis
    by (simp add: ids number_to_string_99 newGraph_def s1_def)
qed

text \<open>
  Claim C6, at the failing input. When the fetch of the users throws a \<open>FetchError\<close>,
  \<open>get\<close> logs it and returns \<open>undefined\<close>; \<open>iterateUsers\<close> then calls \<open>forEach\<close> on
  \<open>undefined\<close>, which throws a \<open>TypeError\<close>. The driver's \<open>await\<close> throws it again:
  the run ends rejected with that error after the fetch and the log line, the store
  is empty and the posts are never fetched.
\<close>

theorem failed_fetch_rejects_driver:
  "snd (main refused_network) = Some TypeError \<and>
   trace (fst (main refused_network))
     = [FetchEv usersUrl,
        LogEv (log_line baseUrl ''/users'' (Some ''ECONNREFUSED'') ''request failed'')] \<and>
   graph (fst (main refused_network)) = newGraph \<and>
   FetchEv postsUrl \<notin> set (trace (fst (main refused_network)))"
  by (simp add: main_refused_network usersUrl_def postsUrl_def withBaseUrl_def)


subsection \<open>The order of effects\<close>

lemma urls_differ: "usersUrl \<noteq> postsUrl"
  by (simp add: usersUrl_def postsUrl_def withBaseUrl_def)

lemma get_trace_events:
  "\<exists>logs. trace (snd (get fetch b p s)) = trace s @ FetchEv (withBaseUrl b p) # logs \<and>
     list_all (\<lambda>e. \<not> post_event e \<and> \<not> user_creation e) logs"
  by (simp add: get_trace split: fetch_outcome.splits error.splits)

lemma users_phase_events:
  "list_all (\<lambda>e. \<not> post_event e)
     (FetchEv usersUrl # map (\<lambda>u. CreateEntityEv (getUserId u) ''User'') us)"
  by (simp add: urls_differ list_all_iff)

lemma users_phase_creations:
  "filter user_creation (FetchEv usersUrl # map (\<lambda>u. CreateEntityEv (getUserId u) ''User'') us)
     = map (\<lambda>u. CreateEntityEv (getUserId u) ''User'') us"
  by (induction us) simp_all

lemma postCallback_events:
  assumes "policy (graph s) = Overwrite"
  shows "\<exists>evs. trace (fst (async postCallback post s)) = trace s @ evs \<and>
     list_all (\<lambda>e. \<not> user_creation e) evs"
  using postCallback_effect [OF assms, of post] by (simp split: option.splits)

lemma forEach_posts_events:
  assumes "policy (graph s) = Overwrite"
  shows "\<exists>evs. trace (fst (forEach (async postCallback) ps s)) = trace s @ evs \<and>
     list_all (\<lambda>e. \<not> user_creation e) evs"
proof -
  let ?I = "\<lambda>s'. policy (graph s') = Overwrite \<and>
     (\<exists>evs. trace s' = trace s @ evs \<and> list_all (\<lambda>e. \<not> user_creation e) evs)"
  have step: "snd (async postCallback x s') = None \<and> ?I (fst (async postCallback x s'))"
    if "?I s'" for x s'
  proof -
    from that obtain evs where p: "policy (graph s') = Overwrite"
      and t: "trace s' = trace s @ evs" and l: "list_all (\<lambda>e. \<not> user_creation e) evs"
      by blast
    from postCallback_events [OF p, of x] obtain evs' where
      t': "trace (fst (async postCallback x s')) = trace s' @ evs'"
      and l': "list_all (\<lambda>e. \<not> user_creation e) evs'"
      by blast
    have "trace (fst (async postCallback x s')) = trace s @ (evs @ evs')"
      by (simp add: t' t)
    moreover have "list_all (\<lambda>e. \<not> user_creation e) (evs @ evs')" using l l' by simp
    ultimately show ?thesis using postCallback_effect [OF p, of x] by blast
  qed
  have init: "?I s" using assms by simp
  from forEach_preserves [of ?I "async postCallback", OF step init, of ps]
  show ?thesis by blast
qed

text \<open>
  Claim C9. The effects of every run split in two parts, one after the other: the first
  holds no effect of the post ingestion (no fetch of the posts, no creation of a post
  entity, no lookup, no relationship), the second holds no creation of a user entity.
  So every user entity is created before the posts are fetched and before any post is
  turned into an entity or a relationship; and when the users are delivered, the first
  part holds exactly one creation per person record, in the order of the records.
\<close>

theorem users_before_posts:
  "\<exists>tu tp. trace (fst (main net)) = tu @ tp \<and>
     list_all (\<lambda>e. \<not> post_event e) tu \<and>
     list_all (\<lambda>e. \<not> user_creation e) tp \<and>
     (\<forall>us. delivered (fetch_users net usersUrl) = Some us \<longrightarrow>
        filter user_creation tu = map (\<lambda>u. CreateEntityEv (getUserId u) ''User'') us)"
proof (cases "delivered (fetch_users net usersUrl)")
  case None
  from get_trace_events [of "fetch_users net" baseUrl "''/users''"
      "\<lparr>graph = newGraph, trace = []\<rparr>"]
  obtain logs where t: "trace (snd (get (fetch_users net) baseUrl ''/users''
      \<lparr>graph = newGraph, trace = []\<rparr>)) = FetchEv usersUrl # logs"
    and l: "list_all (\<lambda>e. \<not> post_event e \<and> \<not> user_creation e) logs"
    by (auto simp: usersUrl_def)
  have "trace (fst (main net)) = (FetchEv usersUrl # logs) @ []"
    by (simp add: main_users_failed [OF None] t)
  moreover have "list_all (\<lambda>e. \<not> post_event e) (FetchEv usersUrl # logs)"
    using l by (simp add: urls_differ list_all_iff)
  ultimately show ?thesis using None
    by (intro exI [of _ "FetchEv usersUrl # logs"] exI [of _ "[]"]) simp
next
  case (Some us)
  let ?tu = "FetchEv usersUrl # map (\<lambda>u. CreateEntityEv (getUserId u) ''User'') us"
  have "\<exists>tp. trace (fst (main net)) = ?tu @ tp \<and> list_all (\<lambda>e. \<not> user_creation e) tp"
  proof (cases "delivered (fetch_posts net postsUrl)")
    case None
    from get_trace_events [of "fetch_posts net" baseUrl "''/posts''"
      "\<lparr>graph = performAll newGraph (map userCall us), trace = ?tu\<rparr>"]
    obtain logs where t: "trace (snd (get (fetch_posts net) baseUrl ''/posts''
      \<lparr>graph = performAll newGraph (map userCall us), trace = ?tu\<rparr>))
        = ?tu @ FetchEv postsUrl # logs"
      and l: "list_all (\<lambda>e. \<not> post_event e \<and> \<not> user_creation e) logs"
      by (auto simp: postsUrl_def)
    have "trace (fst (main net)) = ?tu @ (FetchEv postsUrl # logs)"
      unfolding main_posts_failed [OF Some None] using t by simp
    moreover have "list_all (\<lambda>e. \<not> user_creation e) (FetchEv postsUrl # logs)"
      using l by (simp add: list_all_iff)
    ultimately show ?thesis by blast
  next
    case (Some ps)
    let ?s1 = "\<lparr>graph = performAll newGraph (map userCall us),
       trace = ?tu @ [FetchEv postsUrl]\<rparr>"
    have p: "policy (graph ?s1) = Overwrite" by (simp add: performAll_policy newGraph_def)
    from forEach_posts_events [OF p, of ps] obtain evs where
      t: "trace (fst (forEach (async postCallback) ps ?s1)) = trace ?s1 @ evs"
      and l: "list_all (\<lambda>e. \<not> user_creation e) evs"
      by blast
    have "trace (fst (main net)) = ?tu @ (FetchEv postsUrl # evs)"
      unfolding main_delivered [OF \<open>delivered (fetch_users net usersUrl) = Some us\<close> Some]
      using t by simp
    moreover have "list_all (\<lambda>e. \<not> user_creation e) (FetchEv postsUrl # evs)"
      using l by simp
    ultimately show ?thesis by blast
  qed
  then obtain tp where "trace (fst (main net)) = ?tu @ tp"
    and "list_all (\<lambda>e. \<not> user_creation e) tp" by blast
  then show ?thesis
    using Some users_phase_events [of us] users_phase_creations [of us]
    by (intro exI [of _ ?tu] exI [of _ tp]) simp
qed

theorem users_before_posts_witness:
  "delivered (fetch_users orphan_network usersUrl) = Some [user1] \<and>
   (\<exists>tu tp. trace (fst (main orphan_network)) = tu @ tp \<and>
      list_all (\<lambda>e. \<not> post_event e) tu \<and>
      list_all (\<lambda>e. \<not> user_creation e) tp \<and>
      filter user_creation tu = [CreateEntityEv ''user:1'' ''User''])"
proof -
  have d: "delivered (fetch_users orphan_network usersUrl) = Some [user1]"
    by (simp add: delivered_def orphan_network_def)
  have i: "getUserId user1 = ''user:1''"
    by (simp add: getUserId_def user1_def number_to_string_1)
  from users_before_posts [of orphan_network] obtain tu tp where
    "trace (fst (main orphan_network)) = tu @ tp"
    "list_all (\<lambda>e. \<not> post_event e) tu"
    "list_all (\<lambda>e. \<not> user_creation e) tp"
    and a: "\<forall>us. delivered (fetch_users orphan_network usersUrl) = Some us \<longrightarrow>
        filter user_creation tu = map (\<lambda>u. CreateEntityEv (getUserId u) ''User'') us"
    by blast
  moreover from a [rule_format, OF d]
  have "filter user_creation tu = [CreateEntityEv ''user:1'' ''User'']" by (simp add: i)
  ultimately show ?thesis using d by blast
qed


subsection \<open>The graph as a function of the delivered records\<close>

lemma forEach_Cons_ok:
  "snd (cb x s) = None \<Longrightarrow> forEach cb (x # xs) s = forEach cb xs (fst (cb x s))"
  by (cases "cb x s") simp

lemma postCallback_graph_cong:
  assumes "policy (graph s) = Overwrite" and "graph s = graph s'"
  shows "graph (fst (async postCallback post s)) = graph (fst (async postCallback post s'))"
proof -
  have p': "policy (graph s') = Overwrite" using assms by simp
  show ?thesis
    unfolding postCallback_run [OF assms(1)] postCallback_run [OF p'] assms(2)
    by (simp split: option.splits)
qed

lemma forEach_posts_graph_cong:
  assumes "policy (graph s) = Overwrite" and "graph s = graph s'"
  shows "graph (fst (forEach (async postCallback) ps s))
       = graph (fst (forEach (async postCallback) ps s'))"
  using assms
proof (induction ps arbitrary: s s')
  case Nil
  then show ?case by simp
next
  case (Cons p ps)
  have p': "policy (graph s') = Overwrite" using Cons.prems by simp
  note e = postCallback_effect [OF Cons.prems(1), of p]
  note e' = postCallback_effect [OF p', of p]
  have g: "graph (fst (async postCallback p s)) = graph (fst (async postCallback p s'))"
    by (rule postCallback_graph_cong [OF Cons.prems])
  have "policy (graph (fst (async postCallback p s))) = Overwrite" using e by blast
  from Cons.IH [OF this g] show ?case
    using e e' by (simp add: forEach_Cons_ok del: forEach.simps(2))
qed

lemma forEach_posts_creations:
  assumes "policy (graph s) = Overwrite"
  shows "filter creation (trace (fst (forEach (async postCallback) ps s)))
       = filter creation (trace s) @ map (\<lambda>p. CreateEntityEv (getPostId p) ''Post'') ps"
  using assms
proof (induction ps arbitrary: s)
  case Nil
  then show ?case by simp
next
  case (Cons p ps)
  note e = postCallback_effect [OF Cons.prems, of p]
  have "policy (graph (fst (async postCallback p s))) = Overwrite" using e by blast
  from Cons.IH [OF this] show ?case
    using e by (simp add: forEach_Cons_ok del: forEach.simps(2) split: option.splits)
qed

lemma get_creations:
  "filter creation (trace (snd (get fetch b p s))) = filter creation (trace s)"
  by (simp add: get_trace split: fetch_outcome.splits error.splits)

lemma users_creations:
  "filter creation (FetchEv usersUrl # map (\<lambda>u. CreateEntityEv (getUserId u) ''User'') us)
     = map (\<lambda>u. CreateEntityEv (getUserId u) ''User'') us"
  by (induction us) simp_all

lemma main_creations:
  "filter creation (trace (fst (main net)))
     = map (\<lambda>u. CreateEntityEv (getUserId u) ''User'') (deliveredUsers net)
       @ map (\<lambda>p. CreateEntityEv (getPostId p) ''Post'') (deliveredPosts net)"
proof (cases "delivered (fetch_users net usersUrl)")
  case None
  then show ?thesis
    by (simp add: main_users_failed deliveredUsers_def deliveredPosts_def get_creations)
next
  case (Some us)
  show ?thesis
  proof (cases "delivered (fetch_posts net postsUrl)")
    case None
    then show ?thesis using Some users_creations [of us]
      by (simp add: main_posts_failed deliveredUsers_def deliveredPosts_def get_creations)
  next
    case (Some ps)
    have p: "policy (graph \<lparr>graph = performAll newGraph (map userCall us),
          trace = FetchEv usersUrl # map (\<lambda>u. CreateEntityEv (getUserId u) ''User'') us
            @ [FetchEv postsUrl]\<rparr>) = Overwrite"
      by (simp add: performAll_policy newGraph_def)
    show ?thesis
      using \<open>delivered (fetch_users net usersUrl) = Some us\<close> Some users_creations [of us]
      by (simp add: main_delivered forEach_posts_creations [OF p]
          deliveredUsers_def deliveredPosts_def)
  qed
qed

lemma main_graph:
  "graph (fst (main net))
     = graph (fst (forEach (async postCallback) (deliveredPosts net)
         \<lparr>graph = performAll newGraph (map userCall (deliveredUsers net)), trace = []\<rparr>))"
proof (cases "delivered (fetch_users net usersUrl)")
  case None
  then show ?thesis
    by (simp add: main_users_failed deliveredUsers_def deliveredPosts_def get_graph
        performAll_def)
next
  case (Some us)
  show ?thesis
  proof (cases "delivered (fetch_posts net postsUrl)")
    case None
    then show ?thesis using Some
      by (simp add: main_posts_failed deliveredUsers_def deliveredPosts_def get_graph)
  next
    case (Some ps)
    let ?s = "\<lparr>graph = performAll newGraph (map userCall us),
          trace = FetchEv usersUrl # map (\<lambda>u. CreateEntityEv (getUserId u) ''User'') us
            @ [FetchEv postsUrl]\<rparr>"
    let ?s' = "\<lparr>graph = performAll newGraph (map userCall us), trace = []\<rparr>"
    have p: "policy (graph ?s) = Overwrite" by (simp add: performAll_policy newGraph_def)
    have g: "graph ?s = graph ?s'" by simp
    from forEach_posts_graph_cong [OF p g, of ps] show ?thesis
      using \<open>delivered (fetch_users net usersUrl) = Some us\<close> Some
      by (simp add: main_delivered deliveredUsers_def deliveredPosts_def)
  qed
qed

text \<open>
  Claim C10. The graph a run builds is a function of the records its callbacks are
  invoked on. The entity creations of a run are those of the delivered users followed by
  those of the delivered posts, in order; and two runs with the same delivered users and
  the same delivered posts end with the same graph: the same entities in the same order,
  with the same ids, types and attributes, and the same relationships in the same order,
  whatever else the two networks answer.
\<close>

theorem ingestion_deterministic:
  "filter creation (trace (fst (main n1)))
     = map (\<lambda>u. CreateEntityEv (getUserId u) ''User'') (deliveredUsers n1)
       @ map (\<lambda>p. CreateEntityEv (getPostId p) ''Post'') (deliveredPosts n1) \<and>
   (deliveredUsers n1 = deliveredUsers n2 \<and> deliveredPosts n1 = deliveredPosts n2 \<longrightarrow>
      graph (fst (main n1)) = graph (fst (main n2)) \<and>
      entities (graph (fst (main n1))) = entities (graph (fst (main n2))) \<and>
      relationships (graph (fst (main n1))) = relationships (graph (fst (main n2))))"
  by (simp add: main_creations main_graph)

theorem ingestion_deterministic_witness:
  "deliveredUsers orphan_network
     = deliveredUsers
         \<lparr>fetch_users = (\<lambda>url. if url = usersUrl then Data (Array [user1])
                                  else Throws (OtherTransportError ''no such endpoint'')),
          fetch_posts = (\<lambda>url. if url = postsUrl then Data (Array [post10, post11])
                                  else Data NonArray)\<rparr> \<and>
   graph (fst (main orphan_network))
     = graph (fst (main
         \<lparr>fetch_users = (\<lambda>url. if url = usersUrl then Data (Array [user1])
                                  else Throws (OtherTransportError ''no such endpoint'')),
          fetch_posts = (\<lambda>url. if url = postsUrl then Data (Array [post10, post11])
                                  else Data NonArray)\<rparr>)) \<and>
   graph (fst (main refused_network))
     = graph (fst (main
         \<lparr>fetch_users = (\<lambda>url. Data NonArray), fetch_posts = (\<lambda>url. Data (Array []))\<rparr>))"
proof -
  define n2 where "n2 =
         \<lparr>fetch_users = (\<lambda>url. if url = usersUrl then Data (Array [user1])
                                  else Throws (OtherTransportError ''no such endpoint'')),
          fetch_posts = (\<lambda>url. if url = postsUrl then Data (Array [post10, post11])
                                  else Data NonArray)\<rparr>"
  define n3 where "n3 =
         \<lparr>fetch_users = (\<lambda>url. Data NonArray) :: string \<Rightarrow> User fetch_outcome,
          fetch_posts = (\<lambda>url. Data (Array [])) :: string \<Rightarrow> Post fetch_outcome\<rparr>"
  have d2: "deliveredUsers orphan_network = deliveredUsers n2 \<and>
      deliveredPosts orphan_network = deliveredPosts n2"
    by (simp add: orphan_network_def n2_def deliveredUsers_def deliveredPosts_def delivered_def)
  have d3: "deliveredUsers refused_network = deliveredUsers n3 \<and>
      deliveredPosts refused_network = deliveredPosts n3"
    by (simp add: refused_network_def n3_def deliveredUsers_def deliveredPosts_def
        delivered_def)
  from ingestion_deterministic [of orphan_network n2, THEN conjunct2, rule_format, OF d2]
    ingestion_deterministic [of refused_network n3, THEN conjunct2, rule_format, OF d3] d2
  show ?thesis unfolding n2_def n3_def by simp
qed


subsection \<open>Where the records are stored\<close>

lemma digit_char_inj:
  "a < 10 \<Longrightarrow> b < 10 \<Longrightarrow> digit_char a = digit_char b \<Longrightarrow> a = b"
proof -
  assume a: "a < 10" and b: "b < 10" and e: "digit_char a = digit_char b"
  have d: "distinct ''0123456789''" by simp
  have "a < length ''0123456789''" "b < length ''0123456789''" using a b by simp_all
  with d e show "a = b" unfolding digit_char_def by (simp only: nth_eq_iff_index_eq)
qed

lemma digit_char_digit: "a < 10 \<Longrightarrow> digit_char a \<in> set ''0123456789''"
  unfolding digit_char_def by (rule nth_mem) simp

lemma nat_to_string_digits: "set (nat_to_string n) \<subseteq> set ''0123456789''"
proof (induction n rule: nat_to_string.induct)
  case (1 n)
  show ?case
  proof (cases "n < 10")
    case True
    then show ?thesis using digit_char_digit [of n]
      by (subst nat_to_string.simps) simp
  next
    case False
    have "n mod 10 < 10" by simp
    from digit_char_digit [OF this] 1 [OF False] False show ?thesis
      by (subst nat_to_string.simps) simp
  qed
qed

lemma nat_to_string_nonempty: "nat_to_string n \<noteq> []"
  by (subst nat_to_string.simps) simp

lemma nat_to_string_inj: "nat_to_string m = nat_to_string n \<Longrightarrow> m = n"
proof (induction m arbitrary: n rule: nat_to_string.induct)
  case (1 m)
  show ?case
  proof (cases "m < 10")
    case True
    then have m: "nat_to_string m = [digit_char m]" by (subst nat_to_string.simps) simp
    show ?thesis
    proof (cases "n < 10")
      case n: True
      then have "nat_to_string n = [digit_char n]" by (subst nat_to_string.simps) simp
      then show ?thesis using m "1.prems" True n by (simp add: digit_char_inj)
    next
      case False
      then have "nat_to_string n = nat_to_string (n div 10) @ [digit_char (n mod 10)]"
        by (subst nat_to_string.simps) simp
      then show ?thesis using m "1.prems" nat_to_string_nonempty [of "n div 10"] by simp
    qed
  next
    case False
    then have m: "nat_to_string m = nat_to_string (m div 10) @ [digit_char (m mod 10)]"
      by (subst nat_to_string.simps) simp
    show ?thesis
    proof (cases "n < 10")
      case True
      then have "nat_to_string n = [digit_char n]" by (subst nat_to_string.simps) simp
      then show ?thesis using m "1.prems" nat_to_string_nonempty [of "m div 10"] by simp
    next
      case n: False
      then have "nat_to_string n = nat_to_string (n div 10) @ [digit_char (n mod 10)]"
        by (subst nat_to_string.simps) simp
      with m "1.prems" have q: "nat_to_string (m div 10) = nat_to_string (n div 10)"
        and r: "digit_char (m mod 10) = digit_char (n mod 10)" by simp_all
      have "m div 10 = n div 10" using "1.IH" [OF False q] .
      moreover have "m mod 10 = n mod 10" using r by (simp add: digit_char_inj)
      ultimately show ?thesis by (metis div_mult_mod_eq)
    qed
  qed
qed

lemma number_to_string_inj: "number_to_string i = number_to_string j \<Longrightarrow> i = j"
proof -
  assume e: "number_to_string i = number_to_string j"
  have nd: "CHR ''-'' \<notin> set (nat_to_string n)" for n
    using nat_to_string_digits [of n] by auto
  have mixed: "''-'' @ nat_to_string a \<noteq> nat_to_string b" for a b
  proof
    assume "''-'' @ nat_to_string a = nat_to_string b"
    then have "CHR ''-'' \<in> set (nat_to_string b)" by (metis append_Cons list.set_intros(1))
    then show False using nd by blast
  qed
  show "i = j"
  proof (cases "i < 0")
    case True
    show ?thesis
    proof (cases "j < 0")
      case j: True
      then have "nat (- i) = nat (- j)" using e True
        by (simp add: number_to_string_def nat_to_string_inj)
      then show ?thesis using True j by simp
    next
      case False
      then show ?thesis using e True mixed [of "nat (- i)" "nat j"]
        by (simp add: number_to_string_def)
    qed
  next
    case False
    show ?thesis
    proof (cases "j < 0")
      case True
      then show ?thesis using e False mixed [of "nat (- j)" "nat i"]
        by (simp add: number_to_string_def)
    next
      case j: False
      then have "nat i = nat j" using e False
        by (simp add: number_to_string_def nat_to_string_inj)
      then show ?thesis using False j by simp
    qed
  qed
qed

lemma getUserId_inj: "getUserId u = getUserId u' \<longleftrightarrow> user_id u = user_id u'"
  by (auto simp: getUserId_def dest: number_to_string_inj)

lemma getPostId_inj: "getPostId p = getPostId p' \<longleftrightarrow> post_id p = post_id p'"
  by (auto simp: getPostId_def dest: number_to_string_inj)

lemma latest_userCall_Cons:
  "latest (userCall u # cs) j =
     (case latest cs j of
        Some e \<Rightarrow> Some e
      | None \<Rightarrow> (if getUserId u = j
          then Some \<lparr>entity_id = j, entity_type = ''User'', attributes = UserRecord u\<rparr>
          else None))"
  by (simp add: userCall_def)

lemma latest_postCall_Cons:
  "latest (postCall p # cs) j =
     (case latest cs j of
        Some e \<Rightarrow> Some e
      | None \<Rightarrow> (if getPostId p = j
          then Some \<lparr>entity_id = j, entity_type = ''Post'', attributes = PostRecord p\<rparr>
          else None))"
  by (simp add: postCall_def)

lemma latest_userCalls:
  "latest (map userCall us) j = Some e \<Longrightarrow>
   entity_id e = j \<and> entity_type e = ''User'' \<and>
   (\<exists>u\<in>set us. getUserId u = j \<and> attributes e = UserRecord u)"
proof (induction us)
  case Nil
  then show ?case by simp
next
  case (Cons u us)
  show ?case
  proof (cases "latest (map userCall us) j")
    case None
    then show ?thesis using Cons.prems by (auto simp: latest_userCall_Cons split: if_splits)
  next
    case (Some e')
    then have "e' = e" using Cons.prems by (simp add: latest_userCall_Cons)
    then show ?thesis using Cons.IH Some by auto
  qed
qed

lemma latest_postCalls:
  "latest (map postCall ps) j = Some e \<Longrightarrow>
   entity_id e = j \<and> entity_type e = ''Post'' \<and>
   (\<exists>p\<in>set ps. getPostId p = j \<and> attributes e = PostRecord p)"
proof (induction ps)
  case Nil
  then show ?case by simp
next
  case (Cons p ps)
  show ?case
  proof (cases "latest (map postCall ps) j")
    case None
    then show ?thesis using Cons.prems by (auto simp: latest_postCall_Cons split: if_splits)
  next
    case (Some e')
    then have "e' = e" using Cons.prems by (simp add: latest_postCall_Cons)
    then show ?thesis using Cons.IH Some by auto
  qed
qed

lemma createdIds_userCalls: "createdIds (map userCall us) = map getUserId us"
  by (induction us) (simp_all add: userCall_def)

lemma createdIds_postCalls: "createdIds (map postCall ps) = map getPostId ps"
  by (induction ps) (simp_all add: postCall_def)

lemma forEach_posts_find:
  assumes "policy (graph s) = Overwrite"
  shows "findEntityById (graph (fst (forEach (async postCallback) ps s))) j =
     (case latest (map postCall ps) j of Some e \<Rightarrow> Some e | None \<Rightarrow> findEntityById (graph s) j)"
  using assms
proof (induction ps arbitrary: s)
  case Nil
  then show ?case by simp
next
  case (Cons p ps)
  note e = postCallback_effect [OF Cons.prems, of p]
  have "policy (graph (fst (async postCallback p s))) = Overwrite" using e by blast
  from Cons.IH [OF this] show ?case
    using e by (simp add: forEach_Cons_ok latest_postCall_Cons del: forEach.simps(2) split: option.splits)
qed

lemma main_find:
  "findEntityById (graph (fst (main net))) j =
     (case latest (map postCall (deliveredPosts net)) j of
        Some e \<Rightarrow> Some e
      | None \<Rightarrow> latest (map userCall (deliveredUsers net)) j)"
proof -
  have "policy (graph \<lparr>graph = performAll newGraph (map userCall (deliveredUsers net)),
      trace = []\<rparr>) = Overwrite"
    by (simp add: performAll_policy newGraph_def)
  from forEach_posts_find [OF this] show ?thesis
    by (simp add: main_graph performAll_newGraph_find split: option.splits)
qed

text \<open>
  Claim C4, for records whose numeric ids are safe integers, on which
  \<open>number_to_string\<close> is what the template literal prints. The entity id of a person
  record is \<open>"user:"\<close> followed by its numeric id and that of a post record is
  \<open>"post:"\<close> followed by its numeric id. The id of a person is never the id of a post,
  whatever their numeric ids, and two records of one kind have the same entity id only
  when they have the same numeric id. After a run, every delivered person is found
  under its \<open>user:\<close> id as an entity of type \<open>User\<close> and every delivered post under its
  \<open>post:\<close> id as an entity of type \<open>Post\<close>, with the attributes of a delivered record
  of that numeric id.
\<close>

theorem entity_ids_by_kind:
  assumes "safe_integer (user_id user)" and "safe_integer (user_id user')"
    and "safe_integer (post_id post)" and "safe_integer (post_id post')"
    and "\<forall>u\<in>set (deliveredUsers net). safe_integer (user_id u)"
    and "\<forall>p\<in>set (deliveredPosts net). safe_integer (post_id p) \<and> safe_integer (userId p)"
  shows
  "getUserId user = ''user:'' @ number_to_string (user_id user) \<and>
   getPostId post = ''post:'' @ number_to_string (post_id post) \<and>
   getUserId user \<noteq> getPostId post \<and>
   (getUserId user = getUserId user') = (user_id user = user_id user') \<and>
   (getPostId post = getPostId post') = (post_id post = post_id post') \<and>
   (\<forall>u\<in>set (deliveredUsers net).
      \<exists>e. findEntityById (graph (fst (main net))) (''user:'' @ number_to_string (user_id u))
            = Some e \<and>
          entity_id e = ''user:'' @ number_to_string (user_id u) \<and> entity_type e = ''User'' \<and>
          (\<exists>u'\<in>set (deliveredUsers net). user_id u' = user_id u \<and>
             attributes e = UserRecord u')) \<and>
   (\<forall>p\<in>set (deliveredPosts net).
      \<exists>e. findEntityById (graph (fst (main net))) (''post:'' @ number_to_string (post_id p))
            = Some e \<and>
          entity_id e = ''post:'' @ number_to_string (post_id p) \<and> entity_type e = ''Post'' \<and>
          (\<exists>p'\<in>set (deliveredPosts net). post_id p' = post_id p \<and>
             attributes e = PostRecord p'))"
proof (intro conjI ballI)
  show "getUserId user = ''user:'' @ number_to_string (user_id user)"
    by (simp add: getUserId_def)
  show "getPostId post = ''post:'' @ number_to_string (post_id post)"
    by (simp add: getPostId_def)
  show "getUserId user \<noteq> getPostId post"
    by (simp add: getUserId_def getPostId_def)
  show "(getUserId user = getUserId user') = (user_id user = user_id user')"
    by (rule getUserId_inj)
  show "(getPostId post = getPostId post') = (post_id post = post_id post')"
    by (rule getPostId_inj)
next
  fix u assume u: "u \<in> set (deliveredUsers net)"
  have np: "latest (map postCall (deliveredPosts net)) (getUserId u) = None"
    by (auto simp: latest_None_iff createdIds_postCalls getUserId_def getPostId_def)
  have "latest (map userCall (deliveredUsers net)) (getUserId u) \<noteq> None"
    using u by (simp add: latest_None_iff createdIds_userCalls)
  then obtain e where e: "latest (map userCall (deliveredUsers net)) (getUserId u) = Some e"
    by blast
  have "findEntityById (graph (fst (main net))) (getUserId u) = Some e"
    by (simp add: main_find np e)
  with latest_userCalls [OF e]
  show "\<exists>e. findEntityById (graph (fst (main net))) (''user:'' @ number_to_string (user_id u))
            = Some e \<and>
          entity_id e = ''user:'' @ number_to_string (user_id u) \<and> entity_type e = ''User'' \<and>
          (\<exists>u'\<in>set (deliveredUsers net). user_id u' = user_id u \<and>
             attributes e = UserRecord u')"
    unfolding getUserId_def [of u, symmetric] getUserId_inj by blast
next
  fix p assume p: "p \<in> set (deliveredPosts net)"
  have "latest (map postCall (deliveredPosts net)) (getPostId p) \<noteq> None"
    using p by (simp add: latest_None_iff createdIds_postCalls)
  then obtain e where e: "latest (map postCall (deliveredPosts net)) (getPostId p) = Some e"
    by blast
  have "findEntityById (graph (fst (main net))) (getPostId p) = Some e"
    by (simp add: main_find e)
  with latest_postCalls [OF e]
  show "\<exists>e. findEntityById (graph (fst (main net))) (''post:'' @ number_to_string (post_id p))
            = Some e \<and>
          entity_id e = ''post:'' @ number_to_string (post_id p) \<and> entity_type e = ''Post'' \<and>
          (\<exists>p'\<in>set (deliveredPosts net). post_id p' = post_id p \<and>
             attributes e = PostRecord p')"
    unfolding getPostId_def [of p, symmetric] getPostId_inj by blast
qed

theorem entity_ids_by_kind_witness:
  "safe_integer (user_id user1) \<and> safe_integer (post_id post11) \<and>
   user1 \<in> set (deliveredUsers orphan_network) \<and>
   post11 \<in> set (deliveredPosts orphan_network) \<and>
   getUserId user1 = ''user:1'' \<and> getPostId post11 = ''post:11'' \<and>
   (\<exists>e. findEntityById (graph (fst (main orphan_network))) ''user:1'' = Some e \<and>
        entity_type e = ''User'') \<and>
   (\<exists>e. findEntityById (graph (fst (main orphan_network))) ''post:11'' = Some e \<and>
        entity_type e = ''Post'')"
proof -
  have su: "safe_integer (user_id user1)" by (simp add: safe_integer_def user1_def)
  have sp: "safe_integer (post_id post11)" by (simp add: safe_integer_def post11_def)
  have du: "deliveredUsers orphan_network = [user1]"
    by (simp add: deliveredUsers_def delivered_def orphan_network_def)
  have dp: "deliveredPosts orphan_network = [post10, post11]"
    by (simp add: deliveredPosts_def delivered_def orphan_network_def)
  have sus: "\<forall>u\<in>set (deliveredUsers orphan_network). safe_integer (user_id u)"
    by (simp add: du su)
  have sps: "\<forall>p\<in>set (deliveredPosts orphan_network).
      safe_integer (post_id p) \<and> safe_integer (userId p)"
    by (simp add: dp safe_integer_def post10_def post11_def)
  have u: "user1 \<in> set (deliveredUsers orphan_network)" by (simp add: du)
  have p: "post11 \<in> set (deliveredPosts orphan_network)" by (simp add: dp)
  have i: "number_to_string (user_id user1) = ''1''" "number_to_string (post_id post11) = ''11''"
    by (simp_all add: user1_def post11_def number_to_string_1 number_to_string_11)
  note t = entity_ids_by_kind [OF su su sp sp sus sps]
  from t have ids: "getUserId user1 = ''user:1''" "getPostId post11 = ''post:11''"
    by (simp_all add: i)
  from t have "\<forall>u\<in>set (deliveredUsers orphan_network).
      \<exists>e. findEntityById (graph (fst (main orphan_network)))
             (''user:'' @ number_to_string (user_id u)) = Some e \<and>
          entity_id e = ''user:'' @ number_to_string (user_id u) \<and> entity_type e = ''User'' \<and>
          (\<exists>u'\<in>set (deliveredUsers orphan_network). user_id u' = user_id u \<and>
             attributes e = UserRecord u')"
    by blast
  from bspec [OF this u]
  have a: "\<exists>e. findEntityById (graph (fst (main orphan_network))) ''user:1'' = Some e \<and>
        entity_type e = ''User''"
    by (auto simp: i)
  from t have "\<forall>p\<in>set (deliveredPosts orphan_network).
      \<exists>e. findEntityById (graph (fst (main orphan_network)))
             (''post:'' @ number_to_string (post_id p)) = Some e \<and>
          entity_id e = ''post:'' @ number_to_string (post_id p) \<and> entity_type e = ''Post'' \<and>
          (\<exists>p'\<in>set (deliveredPosts orphan_network). post_id p' = post_id p \<and>
             attributes e = PostRecord p')"
    by blast
  from bspec [OF this p]
  have b: "\<exists>e. findEntityById (graph (fst (main orphan_network))) ''post:11'' = Some e \<and>
        entity_type e = ''Post''"
    by (auto simp: i)
  from su sp u p ids a b show ?thesis by blast
qed

end
